theory Spec2Isabelle
  imports Main "HOL-Library.Sublist"
begin

section \<open>Text and the string operations the scripts call\<close>

text \<open>
  The three scripts read one TypeScript file as text, transform it and write the result to
  a new file. A text is a \<^typ>\<open>string\<close>: the list of the characters that the text-mode
  \<^verbatim>\<open>read()\<close> returns, after decoding and newline translation; the model has the
  characters of code points below 256. The four characters that cannot be written inside
  a string literal get a name.
\<close>

abbreviation sq :: char where "sq \<equiv> CHR 0x27"
abbreviation dq :: char where "dq \<equiv> CHR 0x22"
abbreviation bs :: char where "bs \<equiv> CHR 0x5C"
abbreviation nl :: char where "nl \<equiv> CHR 0x0A"

datatype error = FileNotFoundError | IndexError | ReError

text \<open>
  \<^verbatim>\<open>s.replace(old, new)\<close>: the occurrences of \<open>old\<close> are found from left to right and do
  not overlap; an empty \<open>old\<close> matches before every character and at the end.
  \<^verbatim>\<open>sub in s\<close> is \<^const>\<open>sublist\<close> and \<^verbatim>\<open>s.count(c)\<close> for a one-character \<open>c\<close> is
  \<^const>\<open>count_list\<close>.
\<close>

fun str_replace :: "string \<Rightarrow> string \<Rightarrow> string \<Rightarrow> string" where
  "str_replace old new [] = (if old = [] then new else [])"
| "str_replace old new (c # cs) =
     (if old = [] then new @ c # str_replace old new cs
      else if prefix old (c # cs) then new @ str_replace old new (drop (length old - 1) cs)
      else c # str_replace old new cs)"


text \<open>
  \<^verbatim>\<open>f.readlines()\<close> cuts the text after every newline and keeps the newline in the line;
  \<^verbatim>\<open>f.writelines(output)\<close> writes the concatenation.
\<close>

fun readlines_from :: "string \<Rightarrow> string \<Rightarrow> string list" where
  "readlines_from cur [] = (if cur = [] then [] else [cur])"
| "readlines_from cur (c # cs) =
     (if c = nl then (cur @ [c]) # readlines_from [] cs else readlines_from (cur @ [c]) cs)"

definition readlines :: "string \<Rightarrow> string list" where
  "readlines content = readlines_from [] content"

definition writelines :: "string list \<Rightarrow> string" where
  "writelines output = concat output"

section \<open>The fragment of Python's \<open>re\<close> module that the scripts use\<close>

text \<open>
  The regular expressions of the scripts are sequences of literal characters, character
  classes (\<^verbatim>\<open>['"]\<close>, \<^verbatim>\<open>[^']\<close>, \<^verbatim>\<open>\s\<close>) taken once, greedily zero or more times
  (\<^verbatim>\<open>*\<close>) or greedily one or more times (\<^verbatim>\<open>+\<close>), and capturing groups that are not
  nested. A pattern is the list of its tokens.
\<close>

datatype cls = CIn "char list" | CNot "char list" | CSpace

definition is_space :: "char \<Rightarrow> bool" where
  "is_space c = (let n = (of_char c :: nat) in
     (9 \<le> n \<and> n \<le> 13) \<or> (28 \<le> n \<and> n \<le> 32) \<or> n = 133 \<or> n = 160)"

fun cls_mem :: "cls \<Rightarrow> char \<Rightarrow> bool" where
  "cls_mem (CIn cs) x = (x \<in> set cs)"
| "cls_mem (CNot cs) x = (x \<notin> set cs)"
| "cls_mem CSpace x = is_space x"

datatype rtok = Lit char | One cls | Star cls | Plus cls | Open | Close

definition lits :: "string \<Rightarrow> rtok list" where
  "lits s = map Lit s"

definition push :: "string option \<Rightarrow> char \<Rightarrow> string option" where
  "push g x = map_option (\<lambda>t. t @ [x]) g"

definition pushes :: "string option \<Rightarrow> string \<Rightarrow> string option" where
  "pushes g w = map_option (\<lambda>t. t @ w) g"

definition close_group :: "string option \<Rightarrow> string" where
  "close_group g = (case g of None \<Rightarrow> [] | Some t \<Rightarrow> t)"

text \<open>
  \<open>rmatch ts s g gs\<close> matches the tokens \<open>ts\<close> at the start of \<open>s\<close>, as \<^verbatim>\<open>pattern.match\<close>
  does: \<open>g\<close> is the text of the group that is open, \<open>gs\<close> the groups already closed. A
  greedy repetition first tries one more character and falls back to the rest of the
  pattern when that fails (backtracking). The result is the groups and the text after the
  match.
\<close>

fun rmatch :: "rtok list \<Rightarrow> string \<Rightarrow> string option \<Rightarrow> string list \<Rightarrow> (string list \<times> string) option" where
  "rmatch [] s g gs = Some (gs, s)"
| "rmatch (Lit c # ts) s g gs =
     (case s of [] \<Rightarrow> None
      | x # xs \<Rightarrow> if x = c then rmatch ts xs (push g x) gs else None)"
| "rmatch (One k # ts) s g gs =
     (case s of [] \<Rightarrow> None
      | x # xs \<Rightarrow> if cls_mem k x then rmatch ts xs (push g x) gs else None)"
| "rmatch (Star k # ts) s g gs =
     (case s of [] \<Rightarrow> rmatch ts s g gs
      | x # xs \<Rightarrow>
          if cls_mem k x then
            (case rmatch (Star k # ts) xs (push g x) gs of
               Some r \<Rightarrow> Some r
             | None \<Rightarrow> rmatch ts s g gs)
          else rmatch ts s g gs)"
| "rmatch (Plus k # ts) s g gs =
     (case s of [] \<Rightarrow> None
      | x # xs \<Rightarrow> if cls_mem k x then rmatch (Star k # ts) xs (push g x) gs else None)"
| "rmatch (Open # ts) s g gs = rmatch ts s (Some []) gs"
| "rmatch (Close # ts) s g gs = rmatch ts s None (gs @ [close_group g])"

definition re_match :: "rtok list \<Rightarrow> string \<Rightarrow> (string list \<times> string) option" where
  "re_match pat s = rmatch pat s None []"

text \<open>\<^verbatim>\<open>re.search\<close>: the groups of the leftmost match.\<close>

fun re_search :: "rtok list \<Rightarrow> string \<Rightarrow> string list option" where
  "re_search pat [] = map_option fst (re_match pat [])"
| "re_search pat (c # cs) =
     (case re_match pat (c # cs) of
        Some (gs, rest) \<Rightarrow> Some gs
      | None \<Rightarrow> re_search pat cs)"

text \<open>\<^verbatim>\<open>match.group(n)\<close> raises \<^verbatim>\<open>IndexError\<close> when the pattern has no group \<open>n\<close>.\<close>

definition match_group :: "string list \<Rightarrow> nat \<Rightarrow> error + string" where
  "match_group gs n = (if 1 \<le> n \<and> n \<le> length gs then Inr (gs ! (n - 1)) else Inl IndexError)"

text \<open>
  A replacement template, as \<^verbatim>\<open>re.sub\<close> parses it: \<^verbatim>\<open>\1\<close> to \<^verbatim>\<open>\9\<close> refer to a group
  and must name a group of the pattern, \<^verbatim>\<open>\\\<close> is one backslash, a backslash before
  another character that is not an ASCII letter stays with that character, and an unknown
  letter escape or a backslash at the end is an error. The templates of the scripts use
  no named group, no octal escape and no reference of two digits; the model refuses them.
\<close>

datatype titem = TLit char | TRef nat

definition is_digit :: "char \<Rightarrow> bool" where
  "is_digit c = (48 \<le> (of_char c :: nat) \<and> (of_char c :: nat) \<le> 57)"

definition is_ascii_letter :: "char \<Rightarrow> bool" where
  "is_ascii_letter c = (let n = (of_char c :: nat) in (65 \<le> n \<and> n \<le> 90) \<or> (97 \<le> n \<and> n \<le> 122))"

definition tcons :: "titem list \<Rightarrow> error + titem list \<Rightarrow> error + titem list" where
  "tcons xs r = (case r of Inl e \<Rightarrow> Inl e | Inr ys \<Rightarrow> Inr (xs @ ys))"

definition control_escape :: "char \<Rightarrow> char option" where
  "control_escape d =
     (if d = CHR ''a'' then Some (CHR 0x07) else if d = CHR ''b'' then Some (CHR 0x08)
      else if d = CHR ''f'' then Some (CHR 0x0C) else if d = CHR ''n'' then Some (CHR 0x0A)
      else if d = CHR ''r'' then Some (CHR 0x0D) else if d = CHR ''t'' then Some (CHR 0x09)
      else if d = CHR ''v'' then Some (CHR 0x0B) else if d = bs then Some bs else None)"

fun parse_template :: "nat \<Rightarrow> string \<Rightarrow> error + titem list" where
  "parse_template groups [] = Inr []"
| "parse_template groups [c] = (if c = bs then Inl ReError else Inr [TLit c])"
| "parse_template groups (c # d # cs) =
     (if c \<noteq> bs then tcons [TLit c] (parse_template groups (d # cs))
      else if d = CHR ''g'' \<or> d = CHR ''0'' then Inl ReError
      else if is_digit d then
        (if (case cs of [] \<Rightarrow> False | e # es \<Rightarrow> is_digit e) then Inl ReError
         else if of_char d - 48 \<le> groups then tcons [TRef (of_char d - 48)] (parse_template groups cs)
         else Inl ReError)
      else (case control_escape d of
              Some x \<Rightarrow> tcons [TLit x] (parse_template groups cs)
            | None \<Rightarrow> if is_ascii_letter d then Inl ReError
                       else tcons [TLit c, TLit d] (parse_template groups cs)))"

fun expand :: "titem list \<Rightarrow> string list \<Rightarrow> string" where
  "expand [] gs = []"
| "expand (TLit c # ts) gs = c # expand ts gs"
| "expand (TRef n # ts) gs = (if 1 \<le> n \<and> n \<le> length gs then gs ! (n - 1) else []) @ expand ts gs"

definition groups_of :: "rtok list \<Rightarrow> nat" where
  "groups_of pat = length (filter (\<lambda>t. t = Open) pat)"

text \<open>
  The scan of \<^verbatim>\<open>re.sub\<close>: at each position, from the left, a match is replaced and the scan
  goes on after it; where nothing matches the character is copied. \<open>m\<close> gives, for the text
  at the current position, the replacement and the text after the match. An empty match
  is replaced and the next character copied.
\<close>

fun sub_scan :: "(string \<Rightarrow> (string \<times> string) option) \<Rightarrow> string \<Rightarrow> string" where
  "sub_scan m s =
     (case m s of
        Some (y, rest) \<Rightarrow>
          if length rest < length s then y @ sub_scan m rest
          else (case s of [] \<Rightarrow> y | c # cs \<Rightarrow> y @ c # sub_scan m cs)
      | None \<Rightarrow> (case s of [] \<Rightarrow> [] | c # cs \<Rightarrow> c # sub_scan m cs))"

definition match_expand :: "rtok list \<Rightarrow> titem list \<Rightarrow> string \<Rightarrow> (string \<times> string) option" where
  "match_expand pat t s = map_option (\<lambda>(gs, rest). (expand t gs, rest)) (re_match pat s)"

definition re_sub :: "rtok list \<Rightarrow> string \<Rightarrow> string \<Rightarrow> error + string" where
  "re_sub pat repl s =
     (case parse_template (groups_of pat) repl of
        Inl e \<Rightarrow> Inl e
      | Inr t \<Rightarrow> Inr (sub_scan (match_expand pat t) s))"

text \<open>\<^verbatim>\<open>for pattern, replacement in patterns: content = re.sub(pattern, replacement, content)\<close>\<close>

fun sub_all :: "(rtok list \<times> string) list \<Rightarrow> string \<Rightarrow> error + string" where
  "sub_all [] content = Inr content"
| "sub_all ((pattern, replacement) # ps) content =
     (case re_sub pattern replacement content of
        Inl e \<Rightarrow> Inl e
      | Inr content' \<Rightarrow> sub_all ps content')"

section \<open>\<^verbatim>\<open>update_locations_routes.py\<close>\<close>

text \<open>The list \<^verbatim>\<open>routes_to_update\<close> of the script: pairs \<open>(old, new)\<close>.\<close>

definition ulr_routes_to_update :: "(string \<times> string) list" where
  "ulr_routes_to_update = [
    (''app.get('' @ [dq] @ ''/api/amenities/stats'' @ [dq] @ '', async '',
     ''app.get('' @ [dq] @ ''/api/amenities/stats'' @ [dq] @ '', asyncHandler(async ''),
    (''app.get('' @ [dq] @ ''/api/amenities'' @ [dq] @ '', async '',
     ''app.get('' @ [dq] @ ''/api/amenities'' @ [dq] @ '', asyncHandler(async ''),
    (''app.get('' @ [dq] @ ''/api/amenities/:id'' @ [dq] @ '', async '',
     ''app.get('' @ [dq] @ ''/api/amenities/:id'' @ [dq] @ '', asyncHandler(async ''),
    (''app.post('' @ [dq] @ ''/api/amenities'' @ [dq] @ '', requireContentEditor, auditLogger('' @ [sq] @ ''admin.amenity.create'' @ [sq] @ ''), async '',
     ''app.post('' @ [dq] @ ''/api/amenities'' @ [dq] @ '', requireContentEditor, auditLogger('' @ [sq] @ ''admin.amenity.create'' @ [sq] @ ''), asyncHandler(async ''),
    (''app.put('' @ [dq] @ ''/api/amenities/:id'' @ [dq] @ '', requireContentEditor, validateParams(idParamSchema as any), auditLogger('' @ [sq] @ ''admin.amenity.update'' @ [sq] @ ''), async '',
     ''app.put('' @ [dq] @ ''/api/amenities/:id'' @ [dq] @ '', requireContentEditor, validateParams(idParamSchema as any), auditLogger('' @ [sq] @ ''admin.amenity.update'' @ [sq] @ ''), asyncHandler(async ''),
    (''app.delete('' @ [dq] @ ''/api/amenities/:id'' @ [dq] @ '', requireContentEditor, auditLogger('' @ [sq] @ ''admin.amenity.delete'' @ [sq] @ ''), async '',
     ''app.delete('' @ [dq] @ ''/api/amenities/:id'' @ [dq] @ '', requireContentEditor, auditLogger('' @ [sq] @ ''admin.amenity.delete'' @ [sq] @ ''), asyncHandler(async ''),
    (''app.get('' @ [dq] @ ''/api/venue-types'' @ [dq] @ '', async '',
     ''app.get('' @ [dq] @ ''/api/venue-types'' @ [dq] @ '', asyncHandler(async ''),
    (''app.get('' @ [dq] @ ''/api/venues/stats'' @ [dq] @ '', async '',
     ''app.get('' @ [dq] @ ''/api/venues/stats'' @ [dq] @ '', asyncHandler(async ''),
    (''app.get('' @ [dq] @ ''/api/venues'' @ [dq] @ '', async '',
     ''app.get('' @ [dq] @ ''/api/venues'' @ [dq] @ '', asyncHandler(async ''),
    (''app.get('' @ [dq] @ ''/api/venues/:id'' @ [dq] @ '', async '',
     ''app.get('' @ [dq] @ ''/api/venues/:id'' @ [dq] @ '', asyncHandler(async ''),
    (''app.post('' @ [dq] @ ''/api/venues'' @ [dq] @ '', requireContentEditor, auditLogger('' @ [sq] @ ''admin.venue.create'' @ [sq] @ ''), async '',
     ''app.post('' @ [dq] @ ''/api/venues'' @ [dq] @ '', requireContentEditor, auditLogger('' @ [sq] @ ''admin.venue.create'' @ [sq] @ ''), asyncHandler(async ''),
    (''app.put('' @ [dq] @ ''/api/venues/:id'' @ [dq] @ '', requireContentEditor, validateParams(idParamSchema as any), auditLogger('' @ [sq] @ ''admin.venue.update'' @ [sq] @ ''), async '',
     ''app.put('' @ [dq] @ ''/api/venues/:id'' @ [dq] @ '', requireContentEditor, validateParams(idParamSchema as any), auditLogger('' @ [sq] @ ''admin.venue.update'' @ [sq] @ ''), asyncHandler(async ''),
    (''app.delete('' @ [dq] @ ''/api/venues/:id'' @ [dq] @ '', requireContentEditor, auditLogger('' @ [sq] @ ''admin.venue.delete'' @ [sq] @ ''), async '',
     ''app.delete('' @ [dq] @ ''/api/venues/:id'' @ [dq] @ '', requireContentEditor, auditLogger('' @ [sq] @ ''admin.venue.delete'' @ [sq] @ ''), asyncHandler(async ''),
    (''app.get('' @ [dq] @ ''/api/resorts/stats'' @ [dq] @ '', async '',
     ''app.get('' @ [dq] @ ''/api/resorts/stats'' @ [dq] @ '', asyncHandler(async ''),
    (''app.get('' @ [dq] @ ''/api/resorts'' @ [dq] @ '', async '',
     ''app.get('' @ [dq] @ ''/api/resorts'' @ [dq] @ '', asyncHandler(async ''),
    (''app.get('' @ [dq] @ ''/api/resorts/:id'' @ [dq] @ '', async '',
     ''app.get('' @ [dq] @ ''/api/resorts/:id'' @ [dq] @ '', asyncHandler(async ''),
    (''app.post('' @ [dq] @ ''/api/resorts'' @ [dq] @ '', requireContentEditor, auditLogger('' @ [sq] @ ''admin.resort.create'' @ [sq] @ ''), async '',
     ''app.post('' @ [dq] @ ''/api/resorts'' @ [dq] @ '', requireContentEditor, auditLogger('' @ [sq] @ ''admin.resort.create'' @ [sq] @ ''), asyncHandler(async ''),
    (''app.put('' @ [dq] @ ''/api/resorts/:id'' @ [dq] @ '', requireContentEditor, validateParams(idParamSchema as any), auditLogger('' @ [sq] @ ''admin.resort.update'' @ [sq] @ ''), async '',
     ''app.put('' @ [dq] @ ''/api/resorts/:id'' @ [dq] @ '', requireContentEditor, validateParams(idParamSchema as any), auditLogger('' @ [sq] @ ''admin.resort.update'' @ [sq] @ ''), asyncHandler(async ''),
    (''app.delete('' @ [dq] @ ''/api/resorts/:id'' @ [dq] @ '', requireContentEditor, auditLogger('' @ [sq] @ ''admin.resort.delete'' @ [sq] @ ''), async '',
     ''app.delete('' @ [dq] @ ''/api/resorts/:id'' @ [dq] @ '', requireContentEditor, auditLogger('' @ [sq] @ ''admin.resort.delete'' @ [sq] @ ''), asyncHandler(async ''),
    (''app.get('' @ [dq] @ ''/api/ships/:id/amenities'' @ [dq] @ '', async '',
     ''app.get('' @ [dq] @ ''/api/ships/:id/amenities'' @ [dq] @ '', asyncHandler(async ''),
    (''app.put('' @ [dq] @ ''/api/ships/:id/amenities'' @ [dq] @ '', requireContentEditor, auditLogger('' @ [sq] @ ''admin.ship.amenities.update'' @ [sq] @ ''), async '',
     ''app.put('' @ [dq] @ ''/api/ships/:id/amenities'' @ [dq] @ '', requireContentEditor, auditLogger('' @ [sq] @ ''admin.ship.amenities.update'' @ [sq] @ ''), asyncHandler(async ''),
    (''app.get('' @ [dq] @ ''/api/ships/:id/venues'' @ [dq] @ '', async '',
     ''app.get('' @ [dq] @ ''/api/ships/:id/venues'' @ [dq] @ '', asyncHandler(async ''),
    (''app.put('' @ [dq] @ ''/api/ships/:id/venues'' @ [dq] @ '', requireContentEditor, auditLogger('' @ [sq] @ ''admin.ship.venues.update'' @ [sq] @ ''), async '',
     ''app.put('' @ [dq] @ ''/api/ships/:id/venues'' @ [dq] @ '', requireContentEditor, auditLogger('' @ [sq] @ ''admin.ship.venues.update'' @ [sq] @ ''), asyncHandler(async ''),
    (''app.get('' @ [dq] @ ''/api/resorts/:id/amenities'' @ [dq] @ '', async '',
     ''app.get('' @ [dq] @ ''/api/resorts/:id/amenities'' @ [dq] @ '', asyncHandler(async ''),
    (''app.put('' @ [dq] @ ''/api/resorts/:id/amenities'' @ [dq] @ '', requireContentEditor, auditLogger('' @ [sq] @ ''admin.resort.amenities.update'' @ [sq] @ ''), async '',
     ''app.put('' @ [dq] @ ''/api/resorts/:id/amenities'' @ [dq] @ '', requireContentEditor, auditLogger('' @ [sq] @ ''admin.resort.amenities.update'' @ [sq] @ ''), asyncHandler(async ''),
    (''app.get('' @ [dq] @ ''/api/resorts/:id/venues'' @ [dq] @ '', async '',
     ''app.get('' @ [dq] @ ''/api/resorts/:id/venues'' @ [dq] @ '', asyncHandler(async ''),
    (''app.put('' @ [dq] @ ''/api/resorts/:id/venues'' @ [dq] @ '', requireContentEditor, auditLogger('' @ [sq] @ ''admin.resort.venues.update'' @ [sq] @ ''), async '',
     ''app.put('' @ [dq] @ ''/api/resorts/:id/venues'' @ [dq] @ '', requireContentEditor, auditLogger('' @ [sq] @ ''admin.resort.venues.update'' @ [sq] @ ''), asyncHandler(async '')
  ]"

text \<open>\<^verbatim>\<open>for old, new in routes_to_update: content = content.replace(old, new)\<close>\<close>

definition ulr_wrap_routes :: "string \<Rightarrow> string" where
  "ulr_wrap_routes content = foldl (\<lambda>c (old, new). str_replace old new c) content ulr_routes_to_update"

text \<open>
  The list \<^verbatim>\<open>patterns\<close> of the script. The first four regular expressions are
  \<^verbatim>\<open>return res\.status\(N\)\.json\(\{ error: [\'"]([^\'"]*)[\'"]\s*\}\)\<close> for \<open>N\<close> = 500, 404, 400
  and 409, the fifth is
  \<^verbatim>\<open>return res\.status\(503\)\.json\(\{\s*error: [\'"]([^\'"]*)[\'"]\s*,\s*details: [\'"]([^\'"]*)[\'"]\s*\}\)\<close>.
  The replacements are raw strings, so each \<^verbatim>\<open>\'\<close> in them is a backslash and a quote.
\<close>

definition ulr_patterns :: "(rtok list \<times> string) list" where
  "ulr_patterns = [
    (lits ''return res.status(500).json({ error: '' @
       [One (CIn [sq, dq]), Open, Star (CNot [sq, dq]), Close, One (CIn [sq, dq]), Star CSpace] @ lits ''})'',
     ''throw ApiError.internal('' @ [bs] @ [sq] @ [bs] @ ''1'' @ [bs] @ [sq] @ '')''),
    (lits ''return res.status(404).json({ error: '' @
       [One (CIn [sq, dq]), Open, Star (CNot [sq, dq]), Close, One (CIn [sq, dq]), Star CSpace] @ lits ''})'',
     ''throw ApiError.notFound('' @ [bs] @ [sq] @ [bs] @ ''1'' @ [bs] @ [sq] @ '')''),
    (lits ''return res.status(400).json({ error: '' @
       [One (CIn [sq, dq]), Open, Star (CNot [sq, dq]), Close, One (CIn [sq, dq]), Star CSpace] @ lits ''})'',
     ''throw ApiError.badRequest('' @ [bs] @ [sq] @ [bs] @ ''1'' @ [bs] @ [sq] @ '')''),
    (lits ''return res.status(409).json({ error: '' @
       [One (CIn [sq, dq]), Open, Star (CNot [sq, dq]), Close, One (CIn [sq, dq]), Star CSpace] @ lits ''})'',
     ''throw ApiError.conflict('' @ [bs] @ [sq] @ [bs] @ ''1'' @ [bs] @ [sq] @ '')''),
    (lits ''return res.status(503).json({'' @ [Star CSpace] @ lits ''error: '' @
       [One (CIn [sq, dq]), Open, Star (CNot [sq, dq]), Close, One (CIn [sq, dq]), Star CSpace,
        Lit (CHR '',''), Star CSpace] @ lits ''details: '' @
       [One (CIn [sq, dq]), Open, Star (CNot [sq, dq]), Close, One (CIn [sq, dq]), Star CSpace] @ lits ''})'',
     ''throw ApiError.serviceUnavailable('' @ [bs] @ [sq] @ [bs] @ ''1'' @ [bs] @ [sq] @ '', '' @ [bs] @ [sq] @ [bs] @ ''2'' @ [bs] @ [sq] @ '')'')
  ]"

text \<open>
  \<^verbatim>\<open>content = re.sub(r'\}\);(\s*//)', r'}));\\1', content)\<close>: the replacement is the raw
  string of seven characters that ends in two backslashes and the digit 1.
\<close>

definition ulr_closing_pattern :: "rtok list" where
  "ulr_closing_pattern = lits ''});'' @ [Open, Star CSpace, Lit (CHR ''/''), Lit (CHR ''/''), Close]"

definition ulr_closing_replacement :: string where
  "ulr_closing_replacement = ''}));'' @ [bs] @ [bs] @ ''1''"

definition ulr_fix_closing :: "string \<Rightarrow> error + string" where
  "ulr_fix_closing content = re_sub ulr_closing_pattern ulr_closing_replacement content"

definition update_locations_routes :: "string \<Rightarrow> error + string" where
  "update_locations_routes content =
     (case sub_all ulr_patterns (ulr_wrap_routes content) of
        Inl e \<Rightarrow> Inl e
      | Inr content' \<Rightarrow> ulr_fix_closing content')"

section \<open>\<^verbatim>\<open>final_fix_locations.py\<close>\<close>

text \<open>The list \<^verbatim>\<open>routes_to_update\<close> of the script: pairs \<open>(line_num, route_signature)\<close>.\<close>

definition ffl_routes_to_update :: "(nat \<times> string) list" where
  "ffl_routes_to_update = [
    (614, ''app.get('' @ [dq] @ ''/api/amenities'' @ [dq] @ '', async (req: AuthenticatedRequest, res: Response) =>''),
    (669, ''app.get('' @ [dq] @ ''/api/amenities/:id'' @ [dq] @ '', async (req: AuthenticatedRequest, res: Response) =>''),
    (714, ''app.post('' @ [dq] @ ''/api/amenities'' @ [dq] @ '', requireContentEditor, auditLogger('' @ [sq] @ ''admin.amenity.create'' @ [sq] @ ''), async (req: AuthenticatedRequest, res) =>''),
    (775, ''app.put('' @ [dq] @ ''/api/amenities/:id'' @ [dq] @ '', requireContentEditor, validateParams(idParamSchema as any), auditLogger('' @ [sq] @ ''admin.amenity.update'' @ [sq] @ ''), async (req: AuthenticatedRequest, res) =>''),
    (836, ''app.delete('' @ [dq] @ ''/api/amenities/:id'' @ [dq] @ '', requireContentEditor, auditLogger('' @ [sq] @ ''admin.amenity.delete'' @ [sq] @ ''), async (req: AuthenticatedRequest, res) =>''),
    (873, ''app.get('' @ [dq] @ ''/api/venue-types'' @ [dq] @ '', async (req: AuthenticatedRequest, res: Response) =>''),
    (911, ''app.get('' @ [dq] @ ''/api/venues/stats'' @ [dq] @ '', async (req: AuthenticatedRequest, res: Response) =>''),
    (949, ''app.get('' @ [dq] @ ''/api/venues'' @ [dq] @ '', async (req: AuthenticatedRequest, res: Response) =>''),
    (1018, ''app.get('' @ [dq] @ ''/api/venues/:id'' @ [dq] @ '', async (req: AuthenticatedRequest, res: Response) =>''),
    (1073, ''app.post('' @ [dq] @ ''/api/venues'' @ [dq] @ '', requireContentEditor, auditLogger('' @ [sq] @ ''admin.venue.create'' @ [sq] @ ''), async (req: AuthenticatedRequest, res) =>''),
    (1148, ''app.put('' @ [dq] @ ''/api/venues/:id'' @ [dq] @ '', requireContentEditor, validateParams(idParamSchema as any), auditLogger('' @ [sq] @ ''admin.venue.update'' @ [sq] @ ''), async (req: AuthenticatedRequest, res) =>''),
    (1220, ''app.delete('' @ [dq] @ ''/api/venues/:id'' @ [dq] @ '', requireContentEditor, auditLogger('' @ [sq] @ ''admin.venue.delete'' @ [sq] @ ''), async (req: AuthenticatedRequest, res) =>''),
    (1257, ''app.get('' @ [dq] @ ''/api/resorts/stats'' @ [dq] @ '', async (req: AuthenticatedRequest, res: Response) =>''),
    (1291, ''app.get('' @ [dq] @ ''/api/resorts'' @ [dq] @ '', async (req: AuthenticatedRequest, res: Response) =>''),
    (1361, ''app.get('' @ [dq] @ ''/api/resorts/:id'' @ [dq] @ '', async (req: AuthenticatedRequest, res: Response) =>''),
    (1413, ''app.post('' @ [dq] @ ''/api/resorts'' @ [dq] @ '', requireContentEditor, auditLogger('' @ [sq] @ ''admin.resort.create'' @ [sq] @ ''), async (req: AuthenticatedRequest, res) =>''),
    (1495, ''app.put('' @ [dq] @ ''/api/resorts/:id'' @ [dq] @ '', requireContentEditor, validateParams(idParamSchema as any), auditLogger('' @ [sq] @ ''admin.resort.update'' @ [sq] @ ''), async (req: AuthenticatedRequest, res) =>''),
    (1584, ''app.delete('' @ [dq] @ ''/api/resorts/:id'' @ [dq] @ '', requireContentEditor, auditLogger('' @ [sq] @ ''admin.resort.delete'' @ [sq] @ ''), async (req: AuthenticatedRequest, res) =>''),
    (1621, ''app.get('' @ [dq] @ ''/api/ships/:id/amenities'' @ [dq] @ '', async (req: AuthenticatedRequest, res: Response) =>''),
    (1668, ''app.put('' @ [dq] @ ''/api/ships/:id/amenities'' @ [dq] @ '', requireContentEditor, auditLogger('' @ [sq] @ ''admin.ship.amenities.update'' @ [sq] @ ''), async (req: AuthenticatedRequest, res) =>''),
    (1727, ''app.get('' @ [dq] @ ''/api/ships/:id/venues'' @ [dq] @ '', async (req: AuthenticatedRequest, res: Response) =>''),
    (1778, ''app.put('' @ [dq] @ ''/api/ships/:id/venues'' @ [dq] @ '', requireContentEditor, auditLogger('' @ [sq] @ ''admin.ship.venues.update'' @ [sq] @ ''), async (req: AuthenticatedRequest, res) =>''),
    (1839, ''app.get('' @ [dq] @ ''/api/resorts/:id/amenities'' @ [dq] @ '', async (req: AuthenticatedRequest, res: Response) =>''),
    (1886, ''app.put('' @ [dq] @ ''/api/resorts/:id/amenities'' @ [dq] @ '', requireContentEditor, auditLogger('' @ [sq] @ ''admin.resort.amenities.update'' @ [sq] @ ''), async (req: AuthenticatedRequest, res) =>''),
    (1945, ''app.get('' @ [dq] @ ''/api/resorts/:id/venues'' @ [dq] @ '', async (req: AuthenticatedRequest, res: Response) =>''),
    (1996, ''app.put('' @ [dq] @ ''/api/resorts/:id/venues'' @ [dq] @ '', requireContentEditor, auditLogger('' @ [sq] @ ''admin.resort.venues.update'' @ [sq] @ ''), async (req: AuthenticatedRequest, res) =>'')
  ]"

text \<open>
  The loop replaces \<^verbatim>\<open>route_pattern.replace(' =>', ' => {')\<close> by
  \<^verbatim>\<open>route_pattern.replace(' async (', ' asyncHandler(async (').replace(' =>', ' => {')\<close>;
  the line number is not used.
\<close>

definition ffl_searched :: "string \<Rightarrow> string" where
  "ffl_searched route_pattern = str_replace '' =>'' '' => {'' route_pattern"

definition ffl_wrapped :: "string \<Rightarrow> string" where
  "ffl_wrapped route_pattern =
     str_replace '' =>'' '' => {'' (str_replace '' async ('' '' asyncHandler(async ('' route_pattern)"

definition ffl_wrap_routes :: "string \<Rightarrow> string" where
  "ffl_wrap_routes content =
     foldl (\<lambda>c (line_num, route_pattern). str_replace (ffl_searched route_pattern) (ffl_wrapped route_pattern) c)
       content ffl_routes_to_update"

text \<open>
  The list \<^verbatim>\<open>patterns\<close> of the script:
  \<^verbatim>\<open>return res\.status\(500\)\.json\(\{ error: \'([^\']+)\' \}\);\<close>, the same for 404 with
  double quotes, then for 404, 400 and 409 with single quotes, and
  \<^verbatim>\<open>return res\.status\(503\)\.json\(\{\s*error: \'([^\']+)\',\s*details: \'([^\']+)\'\s*\}\);\<close>.
\<close>

definition ffl_patterns :: "(rtok list \<times> string) list" where
  "ffl_patterns = [
    (lits ''return res.status(500).json({ error: '' @ [Lit sq, Open, Plus (CNot [sq]), Close, Lit sq] @ lits '' });'',
     ''throw ApiError.internal('' @ [sq] @ [bs] @ ''1'' @ [sq] @ '');''),
    (lits ''return res.status(404).json({ error: '' @ [Lit dq, Open, Plus (CNot [dq]), Close, Lit dq] @ lits '' });'',
     ''throw ApiError.notFound('' @ [dq] @ [bs] @ ''1'' @ [dq] @ '');''),
    (lits ''return res.status(404).json({ error: '' @ [Lit sq, Open, Plus (CNot [sq]), Close, Lit sq] @ lits '' });'',
     ''throw ApiError.notFound('' @ [sq] @ [bs] @ ''1'' @ [sq] @ '');''),
    (lits ''return res.status(400).json({ error: '' @ [Lit sq, Open, Plus (CNot [sq]), Close, Lit sq] @ lits '' });'',
     ''throw ApiError.badRequest('' @ [sq] @ [bs] @ ''1'' @ [sq] @ '');''),
    (lits ''return res.status(409).json({ error: '' @ [Lit sq, Open, Plus (CNot [sq]), Close, Lit sq] @ lits '' });'',
     ''throw ApiError.conflict('' @ [sq] @ [bs] @ ''1'' @ [sq] @ '');''),
    (lits ''return res.status(503).json({'' @ [Star CSpace] @ lits ''error: '' @
       [Lit sq, Open, Plus (CNot [sq]), Close, Lit sq, Lit (CHR '',''), Star CSpace] @ lits ''details: '' @
       [Lit sq, Open, Plus (CNot [sq]), Close, Lit sq, Star CSpace] @ lits ''});'',
     ''throw ApiError.serviceUnavailable('' @ [sq] @ [bs] @ ''1'' @ [sq] @ '', '' @ [sq] @ [bs] @ ''2'' @ [sq] @ '');'')
  ]"

text \<open>
  \<^verbatim>\<open>content = re.sub(r'\}\);(\s*//\s*===)', r'}));\1', content)\<close> and
  \<^verbatim>\<open>content = re.sub(r'\}\);(\s*\})', r'}));\1', content)\<close>.
\<close>

definition ffl_closing_section :: "rtok list" where
  "ffl_closing_section = lits ''});'' @
     [Open, Star CSpace, Lit (CHR ''/''), Lit (CHR ''/''), Star CSpace,
      Lit (CHR ''=''), Lit (CHR ''=''), Lit (CHR ''=''), Close]"

definition ffl_closing_brace :: "rtok list" where
  "ffl_closing_brace = lits ''});'' @ [Open, Star CSpace, Lit (CHR ''}''), Close]"

definition ffl_closing_replacement :: string where
  "ffl_closing_replacement = ''}));'' @ [bs] @ ''1''"

definition final_fix_locations :: "string \<Rightarrow> error + string" where
  "final_fix_locations content =
     (case sub_all ffl_patterns (ffl_wrap_routes content) of
        Inl e \<Rightarrow> Inl e
      | Inr c1 \<Rightarrow>
          (case re_sub ffl_closing_section ffl_closing_replacement c1 of
             Inl e \<Rightarrow> Inl e
           | Inr c2 \<Rightarrow> re_sub ffl_closing_brace ffl_closing_replacement c2))"

section \<open>\<^verbatim>\<open>fix_locations_manually.py\<close>\<close>

text \<open>\<^verbatim>\<open>lines[i]\<close> raises \<^verbatim>\<open>IndexError\<close> out of range; the index is never negative here.\<close>

definition line_at :: "string list \<Rightarrow> nat \<Rightarrow> error + string" where
  "line_at lines i = (if i < length lines then Inr (lines ! i) else Inl IndexError)"

definition brace_delta :: "string \<Rightarrow> int" where
  "brace_delta l = int (count_list l (CHR ''{'')) - int (count_list l (CHR ''}''))"

text \<open>The test of lines 17 to 36 of the script: the line names one of the routes.\<close>

definition is_route_line :: "string \<Rightarrow> bool" where
  "is_route_line line \<longleftrightarrow>
     sublist (''app.get('' @ [dq] @ ''/api/amenities'') line \<or>
     sublist (''app.post('' @ [dq] @ ''/api/amenities'') line \<or>
     sublist (''app.put('' @ [dq] @ ''/api/amenities'') line \<or>
     sublist (''app.delete('' @ [dq] @ ''/api/amenities'') line \<or>
     sublist (''app.get('' @ [dq] @ ''/api/venue'') line \<or>
     sublist (''app.post('' @ [dq] @ ''/api/venue'') line \<or>
     sublist (''app.put('' @ [dq] @ ''/api/venue'') line \<or>
     sublist (''app.delete('' @ [dq] @ ''/api/venue'') line \<or>
     sublist (''app.get('' @ [dq] @ ''/api/resorts'') line \<or>
     sublist (''app.post('' @ [dq] @ ''/api/resorts'') line \<or>
     sublist (''app.put('' @ [dq] @ ''/api/resorts'') line \<or>
     sublist (''app.delete('' @ [dq] @ ''/api/resorts'') line \<or>
     sublist (''app.get('' @ [dq] @ ''/api/ships/:id/amenities'') line \<or>
     sublist (''app.put('' @ [dq] @ ''/api/ships/:id/amenities'') line \<or>
     sublist (''app.get('' @ [dq] @ ''/api/ships/:id/venues'') line \<or>
     sublist (''app.put('' @ [dq] @ ''/api/ships/:id/venues'') line \<or>
     sublist (''app.get('' @ [dq] @ ''/api/resorts/:id/amenities'') line \<or>
     sublist (''app.put('' @ [dq] @ ''/api/resorts/:id/amenities'') line \<or>
     sublist (''app.get('' @ [dq] @ ''/api/resorts/:id/venues'') line \<or>
     sublist (''app.put('' @ [dq] @ ''/api/resorts/:id/venues'') line"

text \<open>Lines 39 and 40: \<^verbatim>\<open>asyncHandler(\<close> is added if the line does not have it already.\<close>

definition wrap_route_line :: "string \<Rightarrow> string" where
  "wrap_route_line line =
     (if \<not> sublist ''asyncHandler'' line \<and> sublist ''async ('' line
      then str_replace ''async ('' ''asyncHandler(async ('' line
      else line)"

text \<open>The regular expression \<^verbatim>\<open>error:\s*['\"]([^'\"]*)['\"]\<close> of lines 81 to 96.\<close>

definition error_msg_pattern :: "rtok list" where
  "error_msg_pattern = lits ''error:'' @
     [Star CSpace, One (CIn [sq, dq]), Open, Star (CNot [sq, dq]), Close, One (CIn [sq, dq])]"

text \<open>
  Lines 80 to 101: inside a \<^verbatim>\<open>try\<close> block a line that returns an error status becomes a
  \<^verbatim>\<open>throw\<close>; where the regular expression finds no message the line stays.
\<close>

definition rewrite_return :: "string \<Rightarrow> error + string" where
  "rewrite_return current =
     (if sublist ''return res.status(500).json({ error:'' current then
        (case re_search error_msg_pattern current of
           None \<Rightarrow> Inr current
         | Some gs \<Rightarrow>
             (case match_group gs 1 of
                Inl e \<Rightarrow> Inl e
              | Inr error_msg \<Rightarrow> Inr (''      throw ApiError.internal('' @ [sq] @ error_msg @ [sq] @ '');'' @ [nl])))
      else if sublist ''return res.status(404).json({ error:'' current then
        (case re_search error_msg_pattern current of
           None \<Rightarrow> Inr current
         | Some gs \<Rightarrow>
             (case match_group gs 1 of
                Inl e \<Rightarrow> Inl e
              | Inr error_msg \<Rightarrow> Inr (''      throw ApiError.notFound('' @ [sq] @ error_msg @ [sq] @ '');'' @ [nl])))
      else if sublist ''return res.status(400).json({ error:'' current then
        (case re_search error_msg_pattern current of
           None \<Rightarrow> Inr current
         | Some gs \<Rightarrow>
             (case match_group gs 1 of
                Inl e \<Rightarrow> Inl e
              | Inr error_msg \<Rightarrow> Inr (''      throw ApiError.badRequest('' @ [sq] @ error_msg @ [sq] @ '');'' @ [nl])))
      else if sublist ''return res.status(409).json({ error:'' current then
        (case re_search error_msg_pattern current of
           None \<Rightarrow> Inr current
         | Some gs \<Rightarrow>
             (case match_group gs 1 of
                Inl e \<Rightarrow> Inl e
              | Inr error_msg \<Rightarrow> Inr (''      throw ApiError.conflict('' @ [sq] @ error_msg @ [sq] @ '');'' @ [nl])))
      else if sublist ''return res.status(503).json({'' current then
        Inr (''      throw ApiError.serviceUnavailable('' @ [sq] @ ''Admin service not configured'' @ [sq] @
             '', '' @ [sq] @ ''Please configure SUPABASE_SERVICE_ROLE_KEY environment variable'' @ [sq] @ '');'' @ [nl])
      else Inr current)"

text \<open>Lines 104 and 105: the closing of the route gets one more parenthesis.\<close>

definition adjust_closing :: "string \<Rightarrow> int \<Rightarrow> string" where
  "adjust_closing current brace_count =
     (if sublist ''  });'' current \<and> brace_count = 0 then ''  }));'' @ [nl] else current)"

text \<open>
  The three loops. A loop that did not return would have the value \<open>None\<close>; an exception
  is \<open>Some (Inl e)\<close>. The innermost loop (lines 67 to 70) skips the \<^verbatim>\<open>catch\<close> block.
\<close>

partial_function (option) catch_loop :: "string list \<Rightarrow> nat \<Rightarrow> int \<Rightarrow> (error + nat \<times> int) option" where
  "catch_loop lines i catch_braces =
     (if i < length lines \<and> catch_braces > 0 then
        (case line_at lines i of
           Inl e \<Rightarrow> Some (Inl e)
         | Inr catch_line \<Rightarrow> catch_loop lines (i + 1) (catch_braces + brace_delta catch_line))
      else Some (Inr (i, catch_braces)))"

declare catch_loop.simps [code]

text \<open>
  The state of the loop of lines 50 to 114 is the index, the output, \<^verbatim>\<open>brace_count\<close> and
  \<^verbatim>\<open>found_try\<close>. One iteration returns the new state and whether it ended in \<^verbatim>\<open>break\<close>.
\<close>

type_synonym route_state = "nat \<times> string list \<times> int \<times> bool"

definition route_body :: "string list \<Rightarrow> route_state \<Rightarrow> (error + route_state \<times> bool) option" where
  "route_body lines st =
     (case st of (i, output, brace_count0, found_try) \<Rightarrow>
      (case line_at lines i of
         Inl e \<Rightarrow> Some (Inl e)
       | Inr current \<Rightarrow>
           (let brace_count = brace_count0 + brace_delta current in
            if \<not> found_try \<and> sublist ''try {'' current then
              Some (Inr ((i + 1, output, brace_count, True), False))
            else if found_try \<and> sublist ''} catch'' current then
              (case catch_loop lines (i + 1) 1 of
                 None \<Rightarrow> None
               | Some (Inl e) \<Rightarrow> Some (Inl e)
               | Some (Inr (j, catch_braces)) \<Rightarrow>
                   if j < length lines then
                     (case line_at lines j of
                        Inl e \<Rightarrow> Some (Inl e)
                      | Inr l \<Rightarrow>
                          if sublist ''});'' l
                          then Some (Inr ((j + 1, output @ [''  }));'' @ [nl]], brace_count, found_try), False))
                          else Some (Inr ((j, output, brace_count, found_try), False)))
                   else Some (Inr ((j, output, brace_count, found_try), False)))
            else
              (case (if found_try
                     then (case rewrite_return current of
                             Inl e \<Rightarrow> Inl e
                           | Inr c \<Rightarrow> Inr (adjust_closing c brace_count))
                     else Inr current) of
                 Inl e \<Rightarrow> Some (Inl e)
               | Inr current' \<Rightarrow>
                   if brace_count = 0 \<and> (sublist ''});'' current' \<or> sublist ''}));'' current')
                   then Some (Inr ((i + 1, output @ [current'], brace_count, found_try), True))
                   else Some (Inr ((i + 1, output @ [current'], brace_count, found_try), False))))))"

partial_function (option) route_loop :: "string list \<Rightarrow> route_state \<Rightarrow> (error + route_state) option" where
  "route_loop lines st =
     (if fst st < length lines then
        (case route_body lines st of
           None \<Rightarrow> None
         | Some (Inl e) \<Rightarrow> Some (Inl e)
         | Some (Inr (st', brk)) \<Rightarrow> if brk then Some (Inr st') else route_loop lines st')
      else Some (Inr st))"

declare route_loop.simps [code]

text \<open>One iteration of the loop of lines 11 to 120; its state is the index and the output.\<close>

definition main_body :: "string list \<Rightarrow> nat \<times> string list \<Rightarrow> (error + nat \<times> string list) option" where
  "main_body lines st =
     (case st of (i, output) \<Rightarrow>
      (case line_at lines i of
         Inl e \<Rightarrow> Some (Inl e)
       | Inr line \<Rightarrow>
           if i \<ge> 593 then
             if is_route_line line then
               (case route_loop lines (i + 1, output @ [wrap_route_line line], 0, False) of
                  None \<Rightarrow> None
                | Some (Inl e) \<Rightarrow> Some (Inl e)
                | Some (Inr (j, output', brace_count, found_try)) \<Rightarrow> Some (Inr (j, output')))
             else Some (Inr (i + 1, output @ [line]))
           else Some (Inr (i + 1, output @ [line]))))"

partial_function (option) main_loop :: "string list \<Rightarrow> nat \<times> string list \<Rightarrow> (error + nat \<times> string list) option" where
  "main_loop lines st =
     (if fst st < length lines then
        (case main_body lines st of
           None \<Rightarrow> None
         | Some (Inl e) \<Rightarrow> Some (Inl e)
         | Some (Inr st') \<Rightarrow> main_loop lines st')
      else Some (Inr st))"

declare main_loop.simps [code]

definition fix_lines :: "string list \<Rightarrow> (error + string list) option" where
  "fix_lines lines =
     (case main_loop lines (0, []) of
        None \<Rightarrow> None
      | Some (Inl e) \<Rightarrow> Some (Inl e)
      | Some (Inr (i, output)) \<Rightarrow> Some (Inr output))"

definition fix_locations_manually :: "string \<Rightarrow> (error + string) option" where
  "fix_locations_manually content =
     (case fix_lines (readlines content) of
        None \<Rightarrow> None
      | Some (Inl e) \<Rightarrow> Some (Inl e)
      | Some (Inr output) \<Rightarrow> Some (Inr (writelines output)))"

section \<open>The scripts as programs on a file system\<close>

text \<open>
  A file system maps a path to the text of the file. Opening a missing file for reading
  raises; opening for writing creates or overwrites the file, and a write that fails is
  not modelled. A run returns the new file system and the lines printed.
\<close>

type_synonym filesystem = "string \<rightharpoonup> string"

definition read_file :: "filesystem \<Rightarrow> string \<Rightarrow> error + string" where
  "read_file fs path = (case fs path of None \<Rightarrow> Inl FileNotFoundError | Some content \<Rightarrow> Inr content)"

definition write_file :: "filesystem \<Rightarrow> string \<Rightarrow> string \<Rightarrow> filesystem" where
  "write_file fs path content = fs(path \<mapsto> content)"

definition input_path :: string where
  "input_path = ''/Users/bryan/develop/projects/kgay-travel-guides/server/routes/locations.ts''"

definition ffl_output_path :: string where
  "ffl_output_path = ''/Users/bryan/develop/projects/kgay-travel-guides/server/routes/locations_final.ts''"

definition flm_output_path :: string where
  "flm_output_path = ''/Users/bryan/develop/projects/kgay-travel-guides/server/routes/locations_fixed.ts''"

definition ulr_output_path :: string where
  "ulr_output_path = ''/Users/bryan/develop/projects/kgay-travel-guides/server/routes/locations_updated.ts''"

definition run_final_fix_locations :: "filesystem \<Rightarrow> (error + filesystem \<times> string list) option" where
  "run_final_fix_locations fs =
     (case read_file fs input_path of
        Inl e \<Rightarrow> Some (Inl e)
      | Inr content \<Rightarrow>
          (case final_fix_locations content of
             Inl e \<Rightarrow> Some (Inl e)
           | Inr content' \<Rightarrow>
               Some (Inr (write_file fs ffl_output_path content',
                 [''Created locations_final.ts with all updates applied'',
                  ''Please review before replacing the original'']))))"

definition run_fix_locations_manually :: "filesystem \<Rightarrow> (error + filesystem \<times> string list) option" where
  "run_fix_locations_manually fs =
     (case read_file fs input_path of
        Inl e \<Rightarrow> Some (Inl e)
      | Inr content \<Rightarrow>
          (case fix_locations_manually content of
             None \<Rightarrow> None
           | Some (Inl e) \<Rightarrow> Some (Inl e)
           | Some (Inr content') \<Rightarrow>
               Some (Inr (write_file fs flm_output_path content',
                 [''File fixed and saved as locations_fixed.ts'']))))"

definition run_update_locations_routes :: "filesystem \<Rightarrow> (error + filesystem \<times> string list) option" where
  "run_update_locations_routes fs =
     (case read_file fs input_path of
        Inl e \<Rightarrow> Some (Inl e)
      | Inr content \<Rightarrow>
          (case update_locations_routes content of
             Inl e \<Rightarrow> Some (Inl e)
           | Inr content' \<Rightarrow>
               Some (Inr (write_file fs ulr_output_path content',
                 [''File updated successfully! Created: locations_updated.ts'',
                  ''Please review the changes before replacing the original file.'']))))"

text \<open>
  The three scripts with the path each one writes, and what a run leaves behind for an
  observer: the text at that path and the lines printed, or the exception.
\<close>

definition scripts :: "((filesystem \<Rightarrow> (error + filesystem \<times> string list) option) \<times> string) list" where
  "scripts = [(run_final_fix_locations, ffl_output_path),
              (run_fix_locations_manually, flm_output_path),
              (run_update_locations_routes, ulr_output_path)]"

definition written ::
  "(filesystem \<Rightarrow> (error + filesystem \<times> string list) option) \<Rightarrow> string \<Rightarrow> filesystem
     \<Rightarrow> (error + string option \<times> string list) option" where
  "written run out fs = map_option (map_sum id (\<lambda>(fs', msgs). (fs' out, msgs))) (run fs)"

section \<open>The forms that the regular expressions rewrite\<close>






section \<open>Route texts that cannot overlap\<close>

text \<open>
  Every text of \<^verbatim>\<open>routes_to_update\<close> starts with \<^verbatim>\<open>app.\<close>, has no other \<^verbatim>\<open>app.\<close> inside and
  ends in a character that is not in \<^verbatim>\<open>app.\<close>; no searched text is the start of another
  text of the list. \<open>routes_ok\<close> checks this for a list of pairs.
\<close>

definition marked :: "string \<Rightarrow> bool" where
  "marked x \<longleftrightarrow> prefix ''app.'' x \<and> \<not> sublist ''app.'' (tl x) \<and> last x \<notin> set ''app.''"

definition routes_ok :: "(string \<times> string) list \<Rightarrow> bool" where
  "routes_ok rs \<longleftrightarrow>
     distinct (map fst rs)
     \<and> list_all (\<lambda>(old, new). marked old \<and> marked new) rs
     \<and> list_all (\<lambda>(old, new). list_all (\<lambda>(old', new').
          (old = old' \<or> \<not> prefix old old') \<and> \<not> prefix old new' \<and> \<not> prefix new' old) rs) rs"

section \<open>The matcher: basic facts\<close>

lemma rmatch_Star_Nil [simp]: "rmatch (Star k # ts) [] g gs = rmatch ts [] g gs"
  by simp

lemma rmatch_Star_Cons [simp]:
  "rmatch (Star k # ts) (x # xs) g gs =
     (if cls_mem k x then
        (case rmatch (Star k # ts) xs (push g x) gs of Some r \<Rightarrow> Some r | None \<Rightarrow> rmatch ts (x # xs) g gs)
      else rmatch ts (x # xs) g gs)"
  by simp

declare rmatch.simps(4) [simp del]

declare sub_scan.simps [simp del]

lemma rmatch_groups:
  "rmatch ts s g gs = Some (gs', r) \<Longrightarrow> length gs' = length gs + length (filter (\<lambda>t. t = Close) ts)"
proof (induction ts s g gs arbitrary: gs' r rule: rmatch.induct)
  case (1 s g gs)
  then show ?case by simp
next
  case (2 c ts s g gs)
  then show ?case by (cases s) (auto split: if_splits)
next
  case (3 k ts s g gs)
  then show ?case by (cases s) (auto split: if_splits)
next
  case (4 k ts s g gs)
  show ?case
  proof (cases s)
    case Nil
    with "4.IH"(1) "4.prems" show ?thesis by simp
  next
    case (Cons x xs)
    show ?thesis
    proof (cases "cls_mem k x")
      case False
      with "4.prems" Cons have "rmatch ts s g gs = Some (gs', r)" by simp
      with "4.IH"(4)[OF Cons False] show ?thesis by simp
    next
      case True
      show ?thesis
      proof (cases "rmatch (Star k # ts) xs (push g x) gs")
        case None
        with "4.prems" Cons True have "rmatch ts s g gs = Some (gs', r)" by simp
        with "4.IH"(3)[OF Cons True None] show ?thesis by simp
      next
        case (Some a)
        with "4.prems" Cons True have "rmatch (Star k # ts) xs (push g x) gs = Some (gs', r)" by simp
        with "4.IH"(2)[OF Cons True] show ?thesis by simp
      qed
    qed
  qed
next
  case (5 k ts s g gs)
  then show ?case by (cases s) (auto split: if_splits)
next
  case (6 ts s g gs)
  then show ?case by simp
next
  case (7 ts s g gs)
  then show ?case by simp
qed

lemma re_search_groups:
  "re_search pat s = Some gs \<Longrightarrow> length gs = length (filter (\<lambda>t. t = Close) pat)"
  by (induction pat s rule: re_search.induct) (auto simp: re_match_def split: option.splits dest: rmatch_groups)

lemma error_msg_group:
  "re_search error_msg_pattern s = Some gs \<Longrightarrow> \<exists>m. match_group gs 1 = Inr m"
  by (drule re_search_groups) (simp add: error_msg_pattern_def lits_def match_group_def)


lemma rewrite_return_ok: "\<exists>c. rewrite_return current = Inr c"
proof (cases "re_search error_msg_pattern current")
  case None
  then show ?thesis by (simp add: rewrite_return_def)
next
  case (Some gs)
  then obtain m where "match_group gs 1 = Inr m" using error_msg_group by blast
  with Some show ?thesis by (simp add: rewrite_return_def)
qed


section \<open>The loops of \<^verbatim>\<open>fix_locations_manually.py\<close> return\<close>

lemma catch_loop_returns:
  "\<exists>j cb'. catch_loop lines i cb = Some (Inr (j, cb')) \<and> i \<le> j \<and> (i < length lines \<and> cb > 0 \<longrightarrow> i < j)"
proof (induction "length lines - i" arbitrary: i cb)
  case 0
  then show ?case by (subst catch_loop.simps) simp
next
  case (Suc n)
  show ?case
  proof (cases "i < length lines \<and> cb > 0")
    case False
    then show ?thesis by (subst catch_loop.simps) auto
  next
    case True
    have "n = length lines - (i + 1)" using Suc.hyps(2) by simp
    from Suc.hyps(1)[OF this, of "cb + brace_delta (lines ! i)"]
    obtain j cb' where "catch_loop lines (i + 1) (cb + brace_delta (lines ! i)) = Some (Inr (j, cb'))" "i + 1 \<le> j"
      by blast
    with True show ?thesis
      by (subst catch_loop.simps) (simp add: line_at_def)
  qed
qed


lemma route_body_cases:
  assumes "i < length lines"
  shows "case route_body lines (i, out, bc, ft) of
           Some (Inr ((j, out', bc', ft'), brk)) \<Rightarrow> i < j \<and> prefix out out'
         | _ \<Rightarrow> False"
proof -
  obtain j cb' where c: "catch_loop lines (i + 1) 1 = Some (Inr (j, cb'))" "i + 1 \<le> j"
    using catch_loop_returns[of lines "i + 1" 1] by blast
  obtain c where r: "rewrite_return (lines ! i) = Inr c"
    using rewrite_return_ok by blast
  show ?thesis using assms c r
    by (simp add: route_body_def line_at_def Let_def)
qed

lemma route_body_returns:
  assumes "i < length lines"
  shows "\<exists>j out' bc' ft' brk. route_body lines (i, out, bc, ft) = Some (Inr ((j, out', bc', ft'), brk))
           \<and> i < j \<and> prefix out out'"
  using route_body_cases[OF assms, of out bc ft]
  by (auto split: option.splits sum.splits)

lemma route_loop_returns:
  "\<exists>j out' bc' ft'. route_loop lines (i, out, bc, ft) = Some (Inr (j, out', bc', ft')) \<and> i \<le> j \<and> prefix out out'"
proof (induction "length lines - i" arbitrary: i out bc ft rule: less_induct)
  case less
  show ?case
  proof (cases "i < length lines")
    case False
    then show ?thesis by (subst route_loop.simps) simp
  next
    case True
    from route_body_returns[OF True, of out bc ft]
    obtain j out' bc' ft' brk where b: "route_body lines (i, out, bc, ft) = Some (Inr ((j, out', bc', ft'), brk))"
      "i < j" "prefix out out'" by blast
    show ?thesis
    proof (cases brk)
      case True
      with b \<open>i < length lines\<close> show ?thesis by (subst route_loop.simps) auto
    next
      case False
      have "length lines - j < length lines - i" using b(2) \<open>i < length lines\<close> by simp
      from less[OF this, of out' bc' ft']
      obtain j2 out2 bc2 ft2 where l: "route_loop lines (j, out', bc', ft') = Some (Inr (j2, out2, bc2, ft2))"
        "j \<le> j2" "prefix out' out2" by blast
      have "prefix out out2" using b(3) l(3) by (rule prefix_order.trans)
      with b l False \<open>i < length lines\<close> show ?thesis by (subst route_loop.simps) auto
    qed
  qed
qed

lemma main_body_returns:
  assumes "i < length lines"
  shows "\<exists>j out'. main_body lines (i, out) = Some (Inr (j, out')) \<and> i < j \<and> prefix out out'"
proof -
  obtain j out' bc' ft' where l:
    "route_loop lines (i + 1, out @ [wrap_route_line (lines ! i)], 0, False) = Some (Inr (j, out', bc', ft'))"
    "i + 1 \<le> j" "prefix (out @ [wrap_route_line (lines ! i)]) out'"
    using route_loop_returns by blast
  from l(3) have "prefix out out'" by (meson prefix_order.trans prefixI)
  with assms l show ?thesis
    by (simp add: main_body_def line_at_def)
qed

lemma main_loop_returns:
  "\<exists>j out'. main_loop lines (i, out) = Some (Inr (j, out')) \<and> i \<le> j \<and> prefix out out'"
proof (induction "length lines - i" arbitrary: i out rule: less_induct)
  case less
  show ?case
  proof (cases "i < length lines")
    case False
    then show ?thesis by (subst main_loop.simps) simp
  next
    case True
    from main_body_returns[OF True, of out]
    obtain j out' where b: "main_body lines (i, out) = Some (Inr (j, out'))" "i < j" "prefix out out'" by blast
    have "length lines - j < length lines - i" using b(2) True by simp
    from less[OF this, of out']
    obtain j2 out2 where l: "main_loop lines (j, out') = Some (Inr (j2, out2))" "j \<le> j2" "prefix out' out2" by blast
    have "prefix out out2" using b(3) l(3) by (rule prefix_order.trans)
    with b l True show ?thesis by (subst main_loop.simps) auto
  qed
qed

lemma fix_lines_returns: "\<exists>out. fix_lines lines = Some (Inr out)"
  using main_loop_returns[of lines 0 "[]"] by (auto simp: fix_lines_def)


section \<open>Lines that the line-by-line pass copies\<close>

lemma main_loop_copy:
  assumes "n \<le> length lines" and "\<forall>i<n. i < 593 \<or> \<not> is_route_line (lines ! i)"
  shows "main_loop lines (0, []) = main_loop lines (n, take n lines)"
  using assms
proof (induction n)
  case 0
  then show ?case by simp
next
  case (Suc n)
  then have IH: "main_loop lines (0, []) = main_loop lines (n, take n lines)" by simp
  have n: "n < length lines" using Suc.prems(1) by simp
  have plain: "n < 593 \<or> \<not> is_route_line (lines ! n)" using Suc.prems(2) by simp
  have "main_body lines (n, take n lines) = Some (Inr (n + 1, take n lines @ [lines ! n]))"
    using n plain by (auto simp: main_body_def line_at_def)
  then have "main_loop lines (n, take n lines) = main_loop lines (Suc n, take (Suc n) lines)"
    using n by (subst main_loop.simps) (simp add: take_Suc_conv_app_nth)
  with IH show ?case by simp
qed

lemma main_loop_done: "length lines \<le> i \<Longrightarrow> main_loop lines (i, out) = Some (Inr (i, out))"
  by (subst main_loop.simps) simp

lemma fix_lines_prefix: "\<exists>rest. fix_lines lines = Some (Inr (take 593 lines @ rest))"
proof -
  define n where "n = min 593 (length lines)"
  have "main_loop lines (0, []) = main_loop lines (n, take n lines)"
    by (rule main_loop_copy) (auto simp: n_def)
  moreover obtain j out where "main_loop lines (n, take n lines) = Some (Inr (j, out))" "prefix (take n lines) out"
    using main_loop_returns by blast
  moreover have "take n lines = take 593 lines" by (simp add: n_def min_def)
  ultimately show ?thesis by (auto simp: fix_lines_def prefix_def)
qed

lemma fix_lines_plain:
  assumes "\<forall>i. 593 \<le> i \<and> i < length lines \<longrightarrow> \<not> is_route_line (lines ! i)"
  shows "fix_lines lines = Some (Inr lines)"
proof -
  have "main_loop lines (0, []) = main_loop lines (length lines, take (length lines) lines)"
    using assms by (intro main_loop_copy) (auto simp: not_less)
  then show ?thesis by (simp add: fix_lines_def main_loop_done)
qed

lemma concat_readlines_from: "concat (readlines_from cur s) = cur @ s"
  by (induction cur s rule: readlines_from.induct) auto

lemma writelines_readlines: "writelines (readlines content) = content"
  by (simp add: writelines_def readlines_def concat_readlines_from)


section \<open>The transformations raise no exception\<close>

lemma sub_all_ok:
  "list_all (\<lambda>(p, r). \<not> isl (parse_template (groups_of p) r)) ps \<Longrightarrow> \<exists>c. sub_all ps x = Inr c"
proof (induction ps arbitrary: x)
  case Nil
  then show ?case by simp
next
  case (Cons a ps)
  obtain p r where a: "a = (p, r)" by (cases a)
  with Cons.prems obtain t where "parse_template (groups_of p) r = Inr t"
    by (cases "parse_template (groups_of p) r") auto
  then obtain c where "re_sub p r x = Inr c" by (simp add: re_sub_def)
  moreover from Cons obtain c' where "sub_all ps c = Inr c'" by fastforce
  ultimately show ?case using a by simp
qed

lemma ffl_templates_ok: "list_all (\<lambda>(p, r). \<not> isl (parse_template (groups_of p) r)) ffl_patterns"
  by code_simp

lemma ulr_templates_ok: "list_all (\<lambda>(p, r). \<not> isl (parse_template (groups_of p) r)) ulr_patterns"
  by code_simp

lemma closing_templates_ok:
  "\<not> isl (parse_template (groups_of ffl_closing_section) ffl_closing_replacement)"
  "\<not> isl (parse_template (groups_of ffl_closing_brace) ffl_closing_replacement)"
  "\<not> isl (parse_template (groups_of ulr_closing_pattern) ulr_closing_replacement)"
  by code_simp+

lemma re_sub_ok: "\<not> isl (parse_template (groups_of p) r) \<Longrightarrow> \<exists>c. re_sub p r x = Inr c"
  by (cases "parse_template (groups_of p) r") (auto simp: re_sub_def)

lemma final_fix_locations_ok: "\<exists>c. final_fix_locations content = Inr c"
proof -
  obtain c1 where 1: "sub_all ffl_patterns (ffl_wrap_routes content) = Inr c1"
    using sub_all_ok[OF ffl_templates_ok] by blast
  obtain c2 where 2: "re_sub ffl_closing_section ffl_closing_replacement c1 = Inr c2"
    using re_sub_ok[OF closing_templates_ok(1)] by blast
  obtain c3 where 3: "re_sub ffl_closing_brace ffl_closing_replacement c2 = Inr c3"
    using re_sub_ok[OF closing_templates_ok(2)] by blast
  show ?thesis by (simp add: final_fix_locations_def 1 2 3)
qed

lemma update_locations_routes_ok: "\<exists>c. update_locations_routes content = Inr c"
proof -
  obtain c1 where 1: "sub_all ulr_patterns (ulr_wrap_routes content) = Inr c1"
    using sub_all_ok[OF ulr_templates_ok] by blast
  obtain c2 where 2: "ulr_fix_closing c1 = Inr c2"
    unfolding ulr_fix_closing_def using re_sub_ok[OF closing_templates_ok(3)] by blast
  show ?thesis by (simp add: update_locations_routes_def 1 2)
qed

lemma fix_locations_manually_ok: "\<exists>c. fix_locations_manually content = Some (Inr c)"
  using fix_lines_returns[of "readlines content"] by (auto simp: fix_locations_manually_def)

lemma paths_distinct: "distinct [input_path, ffl_output_path, flm_output_path, ulr_output_path]"
  by (simp add: input_path_def ffl_output_path_def flm_output_path_def ulr_output_path_def)


section \<open>Runs on a file system\<close>

lemma run_missing:
  "fs input_path = None \<Longrightarrow> run_final_fix_locations fs = Some (Inl FileNotFoundError)"
  "fs input_path = None \<Longrightarrow> run_fix_locations_manually fs = Some (Inl FileNotFoundError)"
  "fs input_path = None \<Longrightarrow> run_update_locations_routes fs = Some (Inl FileNotFoundError)"
  by (simp_all add: run_final_fix_locations_def run_fix_locations_manually_def
      run_update_locations_routes_def read_file_def)

lemma run_final_fix_locations_present:
  assumes "fs input_path = Some content"
  shows "\<exists>c msgs. run_final_fix_locations fs = Some (Inr (fs(ffl_output_path \<mapsto> c), msgs))"
proof -
  obtain c where "final_fix_locations content = Inr c" using final_fix_locations_ok by blast
  with assms show ?thesis by (auto simp: run_final_fix_locations_def read_file_def write_file_def)
qed

lemma run_fix_locations_manually_present:
  assumes "fs input_path = Some content"
  shows "\<exists>c msgs. run_fix_locations_manually fs = Some (Inr (fs(flm_output_path \<mapsto> c), msgs))"
proof -
  obtain c where "fix_locations_manually content = Some (Inr c)" using fix_locations_manually_ok by blast
  with assms show ?thesis by (auto simp: run_fix_locations_manually_def read_file_def write_file_def)
qed

lemma run_update_locations_routes_present:
  assumes "fs input_path = Some content"
  shows "\<exists>c msgs. run_update_locations_routes fs = Some (Inr (fs(ulr_output_path \<mapsto> c), msgs))"
proof -
  obtain c where "update_locations_routes content = Inr c" using update_locations_routes_ok by blast
  with assms show ?thesis by (auto simp: run_update_locations_routes_def read_file_def write_file_def)
qed

lemma run_present:
  assumes "(run, out) \<in> set scripts" and "fs input_path = Some content"
  shows "\<exists>c msgs. run fs = Some (Inr (fs(out \<mapsto> c), msgs))"
  using assms run_final_fix_locations_present[of fs content] run_fix_locations_manually_present[of fs content]
    run_update_locations_routes_present[of fs content]
  by (auto simp: scripts_def)

lemma run_absent:
  assumes "(run, out) \<in> set scripts" and "fs input_path = None"
  shows "run fs = Some (Inl FileNotFoundError)"
  using assms run_missing[of fs] by (auto simp: scripts_def)

lemma out_not_input: "(run, out) \<in> set scripts \<Longrightarrow> out \<noteq> input_path"
  using paths_distinct by (auto simp: scripts_def)

lemma written_input_only:
  assumes "(run, out) \<in> set scripts" and "fs1 input_path = fs2 input_path"
  shows "written run out fs1 = written run out fs2"
proof -
  have "written run_final_fix_locations ffl_output_path fs1 = written run_final_fix_locations ffl_output_path fs2"
    using assms(2)
    by (simp add: written_def run_final_fix_locations_def read_file_def write_file_def
        split: option.splits sum.splits)
  moreover have "written run_fix_locations_manually flm_output_path fs1 = written run_fix_locations_manually flm_output_path fs2"
    using assms(2)
    by (simp add: written_def run_fix_locations_manually_def read_file_def write_file_def
        split: option.splits sum.splits)
  moreover have "written run_update_locations_routes ulr_output_path fs1 = written run_update_locations_routes ulr_output_path fs2"
    using assms(2)
    by (simp add: written_def run_update_locations_routes_def read_file_def write_file_def
        split: option.splits sum.splits)
  ultimately show ?thesis using assms(1) by (auto simp: scripts_def)
qed


section \<open>Replacing a literal\<close>

lemma str_replace_id: "\<not> sublist old s \<Longrightarrow> str_replace old new s = s"
proof (induction s)
  case Nil
  then show ?case by auto
next
  case (Cons c cs)
  from Cons.prems have "old \<noteq> []" by auto
  moreover from Cons.prems have "\<not> prefix old (c # cs)" "\<not> sublist old cs"
    by (auto simp: sublist_Cons_right)
  ultimately show ?case using Cons.IH by simp
qed





section \<open>Passes that find nothing\<close>

lemma sub_scan_no_match:
  "re_search pat s = None \<Longrightarrow> sub_scan (match_expand pat t) s = s"
proof (induction s)
  case Nil
  then have "match_expand pat t [] = None" by (simp add: match_expand_def)
  then show ?case by (subst sub_scan.simps) simp
next
  case (Cons c cs)
  from Cons.prems have m: "re_match pat (c # cs) = None" and r: "re_search pat cs = None"
    by (auto split: option.splits)
  from m have "match_expand pat t (c # cs) = None" by (simp add: match_expand_def)
  moreover from r have "sub_scan (match_expand pat t) cs = cs" by (rule Cons.IH)
  ultimately show ?case by (subst sub_scan.simps) simp
qed

lemma re_sub_no_match:
  assumes "\<not> isl (parse_template (groups_of pat) r)" and "re_search pat s = None"
  shows "re_sub pat r s = Inr s"
  using assms by (cases "parse_template (groups_of pat) r") (auto simp: re_sub_def sub_scan_no_match)

lemma sub_all_no_match:
  assumes "list_all (\<lambda>(p, r). \<not> isl (parse_template (groups_of p) r)) ps"
    and "\<forall>(p, r) \<in> set ps. re_search p s = None"
  shows "sub_all ps s = Inr s"
  using assms
proof (induction ps)
  case Nil
  then show ?case by simp
next
  case (Cons a ps)
  obtain p r where a: "a = (p, r)" by (cases a)
  with Cons.prems have "re_sub p r s = Inr s" by (intro re_sub_no_match) auto
  with Cons a show ?case by simp
qed

lemma foldl_replace_id:
  "\<forall>(old, new) \<in> set rs. \<not> sublist old s \<Longrightarrow> foldl (\<lambda>c (old, new). str_replace old new c) s rs = s"
  by (induction rs) (auto simp: str_replace_id)

lemma ffl_wrap_routes_id:
  assumes "\<forall>(n, rp) \<in> set ffl_routes_to_update. \<not> sublist (ffl_searched rp) s"
  shows "ffl_wrap_routes s = s"
proof -
  have "foldl (\<lambda>c (line_num, route_pattern). str_replace (ffl_searched route_pattern) (ffl_wrapped route_pattern) c) s rs = s"
    if "\<forall>(n, rp) \<in> set rs. \<not> sublist (ffl_searched rp) s" for rs
    using that by (induction rs) (auto simp: str_replace_id)
  with assms show ?thesis by (simp add: ffl_wrap_routes_def)
qed


section \<open>What a pattern matches\<close>

text \<open>
  Where the rest of a pattern cannot start with a character of the class, a greedy
  repetition takes the longest run of the class and never gives a character back.
\<close>

lemma pushes_Nil [simp]: "pushes g [] = g"
  by (cases g) (simp_all add: pushes_def)

lemma pushes_None [simp]: "pushes None w = None"
  by (simp add: pushes_def)

lemma pushes_Some [simp]: "pushes (Some t) w = Some (t @ w)"
  by (simp add: pushes_def)

lemma push_pushes: "push g x = pushes g [x]"
  by (simp add: push_def pushes_def)

lemma pushes_pushes [simp]: "pushes (pushes g u) v = pushes g (u @ v)"
  by (cases g) (simp_all add: pushes_def)

lemma rmatch_Nil_iff: "rmatch [] s g gs = Some r \<longleftrightarrow> r = (gs, s)"
  by auto

lemma rmatch_Lit_iff:
  "rmatch (Lit c # ts) s g gs = Some r \<longleftrightarrow> (\<exists>s'. s = c # s' \<and> rmatch ts s' (pushes g [c]) gs = Some r)"
  by (cases s) (auto simp: push_pushes)


lemma rmatch_lits_iff:
  "rmatch (lits l @ ts) s g gs = Some r \<longleftrightarrow> (\<exists>s'. s = l @ s' \<and> rmatch ts s' (pushes g l) gs = Some r)"
proof (induction l arbitrary: s g)
  case Nil
  then show ?case by (simp add: lits_def)
next
  case (Cons c l)
  have "rmatch (lits (c # l) @ ts) s g gs = Some r \<longleftrightarrow>
        (\<exists>s1. s = c # s1 \<and> rmatch (lits l @ ts) s1 (pushes g [c]) gs = Some r)"
    using rmatch_Lit_iff[of c "lits l @ ts" s g gs r] by (simp add: lits_def)
  also have "\<dots> \<longleftrightarrow> (\<exists>s1. s = c # s1 \<and> (\<exists>s'. s1 = l @ s' \<and> rmatch ts s' (pushes g (c # l)) gs = Some r))"
    using Cons.IH by simp
  also have "\<dots> \<longleftrightarrow> (\<exists>s'. s = (c # l) @ s' \<and> rmatch ts s' (pushes g (c # l)) gs = Some r)"
    by auto
  finally show ?case .
qed

lemma rmatch_Star_blocked:
  assumes "\<And>x xs g'. cls_mem k x \<Longrightarrow> rmatch ts (x # xs) g' gs = None"
  shows "rmatch (Star k # ts) s g gs =
           rmatch ts (dropWhile (cls_mem k) s) (pushes g (takeWhile (cls_mem k) s)) gs"
proof (induction s arbitrary: g)
  case Nil
  then show ?case by simp
next
  case (Cons x xs)
  show ?case
  proof (cases "cls_mem k x")
    case False
    then show ?thesis by simp
  next
    case True
    have "rmatch ts (x # xs) g gs = None" using assms True by simp
    with True have "rmatch (Star k # ts) (x # xs) g gs = rmatch (Star k # ts) xs (push g x) gs"
      by (simp split: option.splits)
    with Cons.IH[of "push g x"] True show ?thesis by (simp add: push_pushes)
  qed
qed

lemma rmatch_Star_iff:
  assumes "\<And>x xs g'. cls_mem k x \<Longrightarrow> rmatch ts (x # xs) g' gs = None"
  shows "rmatch (Star k # ts) s g gs = Some r \<longleftrightarrow>
           (\<exists>w s'. s = w @ s' \<and> (\<forall>x \<in> set w. cls_mem k x) \<and> rmatch ts s' (pushes g w) gs = Some r)"
proof
  assume "rmatch (Star k # ts) s g gs = Some r"
  then have "rmatch ts (dropWhile (cls_mem k) s) (pushes g (takeWhile (cls_mem k) s)) gs = Some r"
    by (simp add: rmatch_Star_blocked[OF assms])
  moreover have "s = takeWhile (cls_mem k) s @ dropWhile (cls_mem k) s" by simp
  moreover have "\<forall>x \<in> set (takeWhile (cls_mem k) s). cls_mem k x" by (auto dest: set_takeWhileD)
  ultimately show "\<exists>w s'. s = w @ s' \<and> (\<forall>x \<in> set w. cls_mem k x) \<and> rmatch ts s' (pushes g w) gs = Some r"
    by blast
next
  assume "\<exists>w s'. s = w @ s' \<and> (\<forall>x \<in> set w. cls_mem k x) \<and> rmatch ts s' (pushes g w) gs = Some r"
  then obtain w s' where s: "s = w @ s'" and w: "\<forall>x \<in> set w. cls_mem k x"
    and m: "rmatch ts s' (pushes g w) gs = Some r" by blast
  have "s' = [] \<or> \<not> cls_mem k (hd s')"
  proof (cases s')
    case Nil
    then show ?thesis by simp
  next
    case (Cons x xs)
    with m assms[of x xs "pushes g w"] show ?thesis by auto
  qed
  then have "takeWhile (cls_mem k) s = w" "dropWhile (cls_mem k) s = s'"
    using s w by (cases s'; simp add: takeWhile_append2 dropWhile_append2)+
  with m show "rmatch (Star k # ts) s g gs = Some r"
    by (simp add: rmatch_Star_blocked[OF assms])
qed




lemma rmatch_lits_Cons: "lits (c # l) = Lit c # lits l"
  by (simp add: lits_def)




text \<open>White space before a literal that does not start with white space.\<close>

lemma space_Lit_iff:
  assumes "\<not> is_space c"
  shows "rmatch (Star CSpace # Lit c # ts) s g gs = Some r \<longleftrightarrow>
     (\<exists>w s'. list_all is_space w \<and> s = w @ c # s' \<and> rmatch ts s' (pushes g (w @ [c])) gs = Some r)"
proof -
  have blk: "\<And>x xs g'. cls_mem CSpace x \<Longrightarrow> rmatch (Lit c # ts) (x # xs) g' gs = None"
    using assms by auto
  have 2: "rmatch (Star CSpace # Lit c # ts) s g gs = Some r \<longleftrightarrow>
     (\<exists>w s2. s = w @ s2 \<and> list_all is_space w \<and> rmatch (Lit c # ts) s2 (pushes g w) gs = Some r)"
    using rmatch_Star_iff[where k = CSpace and ts = "Lit c # ts" and gs = gs
        and s = s and g = g and r = r, OF blk]
    by (auto simp: list_all_iff)
  have 3: "rmatch (Lit c # ts) s2 (pushes g w) gs = Some r \<longleftrightarrow>
     (\<exists>s3. s2 = c # s3 \<and> rmatch ts s3 (pushes g (w @ [c])) gs = Some r)" for s2 w
    by (auto simp add: rmatch_Lit_iff simp del: rmatch.simps(2,3,5))
  show ?thesis unfolding 2 3 by auto
qed




text \<open>From here on a pattern is taken apart by the equivalences above.\<close>

declare rmatch.simps(2,3,5) [simp del]

declare rmatch_Star_Nil [simp del]

declare rmatch_Star_Cons [simp del]

section \<open>The patterns of the scripts\<close>

text \<open>Matching a pattern against a text of the right shape, token by token.\<close>

lemma lits_Nil: "lits [] = []"
  by (simp add: lits_def)


lemma eval_Lit: "rmatch (Lit c # ts) (c # s') g gs = rmatch ts s' (pushes g [c]) gs"
  by (simp add: rmatch.simps(2) push_pushes)


lemma eval_Star:
  assumes "list_all (cls_mem k) w" and "s' = [] \<or> \<not> cls_mem k (hd s')"
    and "\<And>x xs g'. cls_mem k x \<Longrightarrow> rmatch ts (x # xs) g' gs = None"
  shows "rmatch (Star k # ts) (w @ s') g gs = rmatch ts s' (pushes g w) gs"
proof -
  have "takeWhile (cls_mem k) (w @ s') = w" "dropWhile (cls_mem k) (w @ s') = s'"
    using assms(1,2) by (cases s'; simp add: list_all_iff takeWhile_append2 dropWhile_append2)+
  then show ?thesis
    using rmatch_Star_blocked[where k = k and ts = ts and gs = gs and s = "w @ s'" and g = g, OF assms(3)]
    by simp
qed

lemma eval_space_Lit:
  assumes "list_all is_space w" and "\<not> is_space c"
  shows "rmatch (Star CSpace # Lit c # ts) (w @ c # s') g gs = rmatch ts s' (pushes g (w @ [c])) gs"
proof -
  have "rmatch (Star CSpace # Lit c # ts) (w @ c # s') g gs = rmatch (Lit c # ts) (c # s') (pushes g w) gs"
    using assms by (intro eval_Star) (auto simp: rmatch.simps(2) list_all_iff)
  then show ?thesis by (simp add: eval_Lit)
qed








lemma ulr_closing_pattern_iff:
  "re_match ulr_closing_pattern s = Some (gs, rest) \<longleftrightarrow>
     (\<exists>w. list_all is_space w \<and> s = ''});'' @ w @ ''//'' @ rest \<and> gs = [w @ ''//''])"
  (is "?L \<longleftrightarrow> ?R")
proof
  have e: "\<not> is_space (CHR ''/'')" by (simp add: is_space_def)
  have *: "?L \<longleftrightarrow>
     (\<exists>s1. s = ''});'' @ s1 \<and> (\<exists>w s2. list_all is_space w \<and> s1 = w @ CHR ''/'' # s2
        \<and> (\<exists>s3. s2 = CHR ''/'' # s3 \<and> (gs, rest) = ([w @ ''//''], s3))))"
    by (auto simp add: ulr_closing_pattern_def re_match_def rmatch_lits_iff space_Lit_iff[OF e] rmatch_Lit_iff
        close_group_def)
  {
    assume ?L
    from this[unfolded *] obtain w where
      "list_all is_space w" "s = ''});'' @ w @ ''//'' @ rest" "gs = [w @ ''//'']"
      by auto
    then show ?R by blast
  next
    assume ?R
    then obtain w where f: "list_all is_space w"
      and s: "s = ''});'' @ w @ ''//'' @ rest" and gs: "gs = [w @ ''//'']"
      by blast
    show ?L unfolding re_match_def s gs ulr_closing_pattern_def using f e
      by (simp add: eval_Lit eval_space_Lit rmatch_lits_Cons lits_Nil close_group_def)
  }
qed


section \<open>A pass as a scan for a form\<close>

lemma groups_of_lits [simp]: "groups_of (lits l @ ts) = groups_of ts"
  by (simp add: groups_of_def lits_def)

lemma groups_of_Cons [simp]: "groups_of (t # ts) = (if t = Open then Suc (groups_of ts) else groups_of ts)"
  by (simp add: groups_of_def)

lemma groups_of_Nil [simp]: "groups_of [] = 0"
  by (simp add: groups_of_def)

lemma groups_of_lits_end [simp]: "groups_of (lits l) = 0"
  by (simp add: groups_of_def lits_def)

lemma expand_lits [simp]: "expand (map TLit a @ ts) gs = a @ expand ts gs"
  by (induction a) simp_all

lemma expand_lits_end [simp]: "expand (map TLit a) gs = a"
  using expand_lits[of a "[]" gs] by simp

lemma match_expand_iff:
  "match_expand pat t s = Some (y, rest) \<longleftrightarrow> (\<exists>gs. re_match pat s = Some (gs, rest) \<and> y = expand t gs)"
  by (auto simp: match_expand_def)












section \<open>The scan around one occurrence\<close>

lemma sub_scan_Nil: "m [] = None \<Longrightarrow> sub_scan m [] = []"
  by (subst sub_scan.simps) simp

lemma sub_scan_None: "m (c # cs) = None \<Longrightarrow> sub_scan m (c # cs) = c # sub_scan m cs"
  by (subst sub_scan.simps) simp

lemma sub_scan_Some:
  "m s = Some (y, rest) \<Longrightarrow> length rest < length s \<Longrightarrow> sub_scan m s = y @ sub_scan m rest"
  by (subst sub_scan.simps) simp

lemma sub_scan_compose:
  assumes nonempty: "\<And>s y rest. m s = Some (y, rest) \<Longrightarrow> length rest < length s"
    and occ: "m (X @ b) = Some (Y, b)"
    and loc: "\<And>a. a \<noteq> [] \<Longrightarrow> m (a @ X @ b) = map_option (\<lambda>(y, r). (y, r @ X @ b)) (m a)"
  shows "sub_scan m (a @ X @ b) = sub_scan m a @ Y @ sub_scan m b"
proof (induction "length a" arbitrary: a rule: less_induct)
  case less
  have nil: "m [] = None"
  proof (cases "m []")
    case (Some p)
    then show ?thesis using nonempty[of "[]" "fst p" "snd p"] by simp
  qed simp
  show ?case
  proof (cases a)
    case Nil
    have "length b < length (X @ b)" using nonempty[OF occ] .
    then have "sub_scan m (X @ b) = Y @ sub_scan m b" using occ by (rule sub_scan_Some[rotated])
    with Nil nil show ?thesis by (simp add: sub_scan_Nil)
  next
    case (Cons c cs)
    then have ne: "a \<noteq> []" by simp
    show ?thesis
    proof (cases "m a")
      case None
      then have "m (a @ X @ b) = None" using loc[OF ne] by simp
      then have "sub_scan m (a @ X @ b) = c # sub_scan m (cs @ X @ b)"
        using Cons sub_scan_None[of m c "cs @ X @ b"] by simp
      moreover have "sub_scan m (cs @ X @ b) = sub_scan m cs @ Y @ sub_scan m b"
        using less[of cs] Cons by simp
      moreover have "sub_scan m a = c # sub_scan m cs"
        using None Cons sub_scan_None[of m c cs] by simp
      ultimately show ?thesis by simp
    next
      case (Some p)
      obtain y r where p: "p = (y, r)" by (cases p)
      have lr: "length r < length a" using nonempty[of a y r] Some p by simp
      have "m (a @ X @ b) = Some (y, r @ X @ b)" using loc[OF ne] Some p by simp
      moreover have "length (r @ X @ b) < length (a @ X @ b)" using lr by simp
      ultimately have "sub_scan m (a @ X @ b) = y @ sub_scan m (r @ X @ b)" by (rule sub_scan_Some)
      moreover have "sub_scan m (r @ X @ b) = sub_scan m r @ Y @ sub_scan m b"
        using less[of r] lr by simp
      moreover have "sub_scan m a = y @ sub_scan m r"
        using Some p lr by (intro sub_scan_Some) simp_all
      ultimately show ?thesis by simp
    qed
  qed
qed

lemma re_search_Some:
  "re_search pat s = Some gs \<Longrightarrow> \<exists>a t rest. s = a @ t \<and> re_match pat t = Some (gs, rest)"
proof (induction s)
  case Nil
  then show ?case by (cases "re_match pat []") auto
next
  case (Cons c cs)
  show ?case
  proof (cases "re_match pat (c # cs)")
    case None
    with Cons.prems have "re_search pat cs = Some gs" by simp
    with Cons.IH obtain a t rest where "cs = a @ t" "re_match pat t = Some (gs, rest)" by blast
    then have "c # cs = (c # a) @ t \<and> re_match pat t = Some (gs, rest)" by simp
    then show ?thesis by blast
  next
    case (Some p)
    with Cons.prems have "re_match pat (c # cs) = Some (gs, snd p)" by (cases p) simp
    then have "c # cs = [] @ (c # cs) \<and> re_match pat (c # cs) = Some (gs, snd p)" by simp
    then show ?thesis by blast
  qed
qed

lemma ulr_closing_template:
  "parse_template (groups_of ulr_closing_pattern) ulr_closing_replacement = Inr (map TLit (''}));'' @ [bs] @ ''1''))"
  by code_simp

lemma ulr_closing_match:
  "match_expand ulr_closing_pattern (map TLit (''}));'' @ [bs] @ ''1'')) s = Some (y, rest) \<longleftrightarrow>
     (\<exists>w. list_all is_space w \<and> s = ''});'' @ w @ ''//'' @ rest) \<and> y = ''}));'' @ [bs] @ ''1''"
  unfolding match_expand_iff ulr_closing_pattern_iff by auto

lemma closing_span_local:
  assumes w: "list_all is_space w" and a: "a \<noteq> []"
    and eq: "a @ ''});'' @ z = ''});'' @ w @ ''//'' @ rest"
  shows "\<exists>r. a = ''});'' @ w @ ''//'' @ r \<and> rest = r @ ''});'' @ z"
proof -
  from eq have "a @ (''});'' @ z) = (''});'' @ w @ ''//'') @ rest" by simp
  then obtain us where us: "a = (''});'' @ w @ ''//'') @ us \<and> us @ (''});'' @ z) = rest
      \<or> a @ us = ''});'' @ w @ ''//'' \<and> ''});'' @ z = us @ rest"
    unfolding append_eq_append_conv2 by blast
  show ?thesis
  proof (cases "a = (''});'' @ w @ ''//'') @ us \<and> us @ (''});'' @ z) = rest")
    case True
    then show ?thesis by auto
  next
    case False
    with us have 1: "a @ us = ''});'' @ w @ ''//''" and 2: "''});'' @ z = us @ rest" by blast+
    show ?thesis
    proof (cases us)
      case Nil
      with 1 2 show ?thesis by auto
    next
      case (Cons u us')
      with 2 have u: "u = CHR ''}''" by simp
      obtain c a' where ca: "a = c # a'" using a by (cases a) auto
      from 1 ca Cons u have "a' @ CHR ''}'' # us' = '');'' @ w @ ''//''" by simp
      then have "CHR ''}'' \<in> set ('');'' @ w @ ''//'')" by (metis in_set_conv_decomp)
      then have "CHR ''}'' \<in> set w" by simp
      with w have "is_space (CHR ''}'')" by (simp add: list_all_iff)
      then show ?thesis by (simp add: is_space_def)
    qed
  qed
qed

lemma ulr_closing_local:
  assumes "list_all is_space w0" and "a \<noteq> []"
  shows "match_expand ulr_closing_pattern (map TLit (''}));'' @ [bs] @ ''1'')) (a @ (''});'' @ w0 @ ''//'') @ b)
         = map_option (\<lambda>(y, r). (y, r @ (''});'' @ w0 @ ''//'') @ b))
             (match_expand ulr_closing_pattern (map TLit (''}));'' @ [bs] @ ''1'')) a)"
  (is "?m (a @ ?X @ b) = map_option ?g (?m a)")
proof (cases "?m a")
  case None
  have "?m (a @ ?X @ b) = None"
  proof (rule ccontr)
    assume "?m (a @ ?X @ b) \<noteq> None"
    then obtain y rest where "?m (a @ ?X @ b) = Some (y, rest)" by auto
    then obtain w where w: "list_all is_space w" "a @ ?X @ b = ''});'' @ w @ ''//'' @ rest"
      unfolding ulr_closing_match by blast
    from w(2) have "a @ ''});'' @ (w0 @ ''//'' @ b) = ''});'' @ w @ ''//'' @ rest" by simp
    from closing_span_local[OF w(1) assms(2) this]
    obtain r where "a = ''});'' @ w @ ''//'' @ r" by blast
    with w(1) have "?m a = Some (''}));'' @ [bs] @ ''1'', r)" unfolding ulr_closing_match by blast
    with None show False by simp
  qed
  with None show ?thesis by simp
next
  case (Some p)
  obtain y r where p: "p = (y, r)" by (cases p)
  with Some have "match_expand ulr_closing_pattern (map TLit (''}));'' @ [bs] @ ''1'')) a = Some (y, r)"
    by simp
  then obtain w where w: "list_all is_space w" "a = ''});'' @ w @ ''//'' @ r" and y: "y = ''}));'' @ [bs] @ ''1''"
    unfolding ulr_closing_match by blast
  from w(2) have "a @ ?X @ b = ''});'' @ w @ ''//'' @ (r @ ?X @ b)" by simp
  with w(1) y have "?m (a @ ?X @ b) = Some (y, r @ ?X @ b)" unfolding ulr_closing_match by blast
  with Some p show ?thesis by simp
qed

lemma ulr_closing_nonempty:
  assumes "match_expand ulr_closing_pattern (map TLit (''}));'' @ [bs] @ ''1'')) s = Some (y, rest)"
  shows "length rest < length s"
proof -
  from assms obtain w where "s = ''});'' @ w @ ''//'' @ rest" unfolding ulr_closing_match by blast
  then show ?thesis by simp
qed

lemma ulr_closing_compose:
  assumes "list_all is_space w"
  shows "sub_scan (match_expand ulr_closing_pattern (map TLit (''}));'' @ [bs] @ ''1''))) (a @ ''});'' @ w @ ''//'' @ b)
       = sub_scan (match_expand ulr_closing_pattern (map TLit (''}));'' @ [bs] @ ''1''))) a
         @ ''}));'' @ [bs] @ ''1''
         @ sub_scan (match_expand ulr_closing_pattern (map TLit (''}));'' @ [bs] @ ''1''))) b"
proof -
  have occ: "match_expand ulr_closing_pattern (map TLit (''}));'' @ [bs] @ ''1'')) ((''});'' @ w @ ''//'') @ b)
        = Some (''}));'' @ [bs] @ ''1'', b)"
    unfolding ulr_closing_match using assms by auto
  have "sub_scan (match_expand ulr_closing_pattern (map TLit (''}));'' @ [bs] @ ''1''))) (a @ (''});'' @ w @ ''//'') @ b)
       = sub_scan (match_expand ulr_closing_pattern (map TLit (''}));'' @ [bs] @ ''1''))) a
         @ (''}));'' @ [bs] @ ''1'')
         @ sub_scan (match_expand ulr_closing_pattern (map TLit (''}));'' @ [bs] @ ''1''))) b"
    by (rule sub_scan_compose[OF ulr_closing_nonempty occ ulr_closing_local[OF assms]])
  then show ?thesis by simp
qed

lemma ulr_closing_id:
  assumes "\<not> (\<exists>a w b. list_all is_space w \<and> s = a @ ''});'' @ w @ ''//'' @ b)"
  shows "sub_scan (match_expand ulr_closing_pattern t) s = s"
proof (rule sub_scan_no_match)
  show "re_search ulr_closing_pattern s = None"
  proof (cases "re_search ulr_closing_pattern s")
    case (Some gs)
    then obtain a u rest where "s = a @ u" "re_match ulr_closing_pattern u = Some (gs, rest)"
      using re_search_Some by blast
    then obtain w where "list_all is_space w" "s = a @ ''});'' @ w @ ''//'' @ rest"
      unfolding ulr_closing_pattern_iff by auto
    with assms show ?thesis by blast
  qed simp
qed


section \<open>Replacing route texts\<close>

lemma ulr_routes_ok: "routes_ok ulr_routes_to_update"
  by code_simp

lemma ulr_routes_shape:
  "list_all (\<lambda>(old, new). suffix '', async '' old
      \<and> new = take (length old - 6) old @ ''asyncHandler(async '') ulr_routes_to_update"
  by code_simp

lemma str_replace_append:
  assumes "old \<noteq> []"
    and "\<And>o1 o2. old = o1 @ o2 \<Longrightarrow> o1 \<noteq> [] \<Longrightarrow> o2 \<noteq> [] \<Longrightarrow> suffix o1 a \<Longrightarrow> prefix o2 b \<Longrightarrow> False"
  shows "str_replace old new (a @ b) = str_replace old new a @ str_replace old new b"
  using assms(2)
proof (induction "length a" arbitrary: a rule: less_induct)
  case less
  show ?case
  proof (cases a)
    case Nil
    then show ?thesis using assms(1) by simp
  next
    case (Cons c cs)
    show ?thesis
    proof (cases "prefix old (a @ b)")
      case True
      then obtain r where r: "a @ b = old @ r" by (auto simp: prefix_def)
      have pa: "prefix old a"
      proof -
        from r obtain u where "a = old @ u \<and> u @ b = r \<or> a @ u = old \<and> b = u @ r"
          unfolding append_eq_append_conv2 by blast
        then show ?thesis
        proof
          assume "a = old @ u \<and> u @ b = r"
          then show ?thesis by auto
        next
          assume u: "a @ u = old \<and> b = u @ r"
          show ?thesis
          proof (cases "u = []")
            case True
            with u show ?thesis by auto
          next
            case False
            have "False"
              by (rule less.prems[of a u]) (use u False Cons in auto)
            then show ?thesis ..
          qed
        qed
      qed
      then have le: "length old \<le> length a" by (rule prefix_length_le)
      define a' where "a' = drop (length old - 1) cs"
      have a': "a' = drop (length old) a" using Cons assms(1) by (cases old) (auto simp: a'_def)
      have "length a' < length a" using a' assms(1) Cons by (cases old) auto
      moreover have "\<And>o1 o2. old = o1 @ o2 \<Longrightarrow> o1 \<noteq> [] \<Longrightarrow> o2 \<noteq> [] \<Longrightarrow> suffix o1 a' \<Longrightarrow> prefix o2 b \<Longrightarrow> False"
      proof -
        fix o1 o2
        assume h: "old = o1 @ o2" "o1 \<noteq> []" "o2 \<noteq> []" "suffix o1 a'" "prefix o2 b"
        have "suffix a' a" unfolding a' by (rule suffix_drop)
        with h(4) have "suffix o1 a" by (rule suffix_order.trans)
        with h show False using less.prems by blast
      qed
      ultimately have IH: "str_replace old new (a' @ b) = str_replace old new a' @ str_replace old new b"
        by (rule less.hyps)
      have "drop (length old - 1) (cs @ b) = a' @ b"
        using le Cons assms(1) by (cases old) (auto simp: a'_def)
      then have "str_replace old new (a @ b) = new @ str_replace old new (a' @ b)"
        using True Cons assms(1) by simp
      moreover have "str_replace old new a = new @ str_replace old new a'"
        using pa Cons assms(1) by (simp add: a'_def)
      ultimately show ?thesis using IH by simp
    next
      case False
      then have npa: "\<not> prefix old a" by (meson prefix_prefix)
      have "\<And>o1 o2. old = o1 @ o2 \<Longrightarrow> o1 \<noteq> [] \<Longrightarrow> o2 \<noteq> [] \<Longrightarrow> suffix o1 cs \<Longrightarrow> prefix o2 b \<Longrightarrow> False"
      proof -
        fix o1 o2
        assume h: "old = o1 @ o2" "o1 \<noteq> []" "o2 \<noteq> []" "suffix o1 cs" "prefix o2 b"
        from h(4) have "suffix o1 a" using Cons by (simp add: suffix_ConsI)
        with h show False using less.prems by blast
      qed
      moreover have "length cs < length a" using Cons by simp
      ultimately have IH: "str_replace old new (cs @ b) = str_replace old new cs @ str_replace old new b"
        using less.hyps by blast
      have "str_replace old new (a @ b) = c # str_replace old new (cs @ b)"
        using False Cons assms(1) by simp
      moreover have "str_replace old new a = c # str_replace old new cs"
        using npa Cons assms(1) by simp
      ultimately show ?thesis using IH by simp
    qed
  qed
qed

lemma str_replace_self: "old \<noteq> [] \<Longrightarrow> str_replace old new old = new"
  by (cases old) auto

lemma marked_nonempty: "marked x \<Longrightarrow> x \<noteq> []"
  by (auto simp: marked_def)

lemma marked_inner:
  assumes "marked x" and "x = u @ ''app.'' @ v"
  shows "u = []"
proof (rule ccontr)
  assume "u \<noteq> []"
  then obtain c u' where "u = c # u'" by (cases u) auto
  with assms(2) have "tl x = u' @ ''app.'' @ v" by simp
  then have "sublist ''app.'' (tl x)" unfolding sublist_def by blast
  with assms(1) show False by (simp add: marked_def)
qed

lemma marked_last:
  assumes "marked x" and "x = u @ p" and "p \<noteq> []" and "prefix p ''app.''"
  shows False
proof -
  from assms(2,3) have "last x = last p" by simp
  moreover from assms(3) have "last p \<in> set p" by simp
  moreover from assms(4) have "set p \<subseteq> set ''app.''" by (rule set_mono_prefix)
  ultimately have "last x \<in> set ''app.''" by auto
  with assms(1) show False by (simp add: marked_def)
qed

lemma no_straddle_left:
  assumes o: "marked old" and m: "marked mid"
    and h: "old = o1 @ o2" "o1 \<noteq> []" "o2 \<noteq> []" "prefix o2 (mid @ b)"
  shows False
proof -
  from m have "prefix ''app.'' (mid @ b)" by (simp add: marked_def)
  with h(4) have "prefix o2 ''app.'' \<or> prefix ''app.'' o2" by (rule prefix_same_cases)
  then show False
  proof
    assume "prefix o2 ''app.''"
    with o h(1,3) show False by (rule marked_last)
  next
    assume "prefix ''app.'' o2"
    then obtain v where "o2 = ''app.'' @ v" by (auto simp: prefix_def)
    with h(1) have "old = o1 @ ''app.'' @ v" by simp
    with o have "o1 = []" by (rule marked_inner)
    with h(2) show False by simp
  qed
qed

lemma no_straddle_right:
  assumes o: "marked old" and m: "marked mid" and np: "\<not> strict_prefix mid old"
    and h: "old = o1 @ o2" "o1 \<noteq> []" "o2 \<noteq> []" "suffix o1 (a @ mid)"
  shows False
proof -
  from o have "prefix ''app.'' (o1 @ o2)" using h(1) by (simp add: marked_def)
  moreover have "prefix o1 (o1 @ o2)" by simp
  ultimately have c: "prefix ''app.'' o1 \<or> prefix o1 ''app.''" by (rule prefix_same_cases)
  from h(4) obtain z where z: "a @ mid = z @ o1" by (auto simp: suffix_def)
  then obtain u where u: "a = z @ u \<and> u @ mid = o1 \<or> a @ u = z \<and> mid = u @ o1"
    unfolding append_eq_append_conv2 by blast
  then show False
  proof
    assume 1: "a = z @ u \<and> u @ mid = o1"
    from m obtain v where v: "mid = ''app.'' @ v" by (auto simp: marked_def prefix_def)
    with 1 h(1) have "old = u @ ''app.'' @ (v @ o2)" by auto
    with o have "u = []" by (rule marked_inner)
    with 1 h(1) have "old = mid @ o2" by auto
    with h(3) have "strict_prefix mid old" by (auto simp: strict_prefix_def)
    with np show False by simp
  next
    assume 2: "a @ u = z \<and> mid = u @ o1"
    from c show False
    proof
      assume "prefix ''app.'' o1"
      then obtain v where "o1 = ''app.'' @ v" by (auto simp: prefix_def)
      with 2 have "mid = u @ ''app.'' @ v" by simp
      with m have "u = []" by (rule marked_inner)
      with 2 h(1) have "old = mid @ o2" by auto
      with h(3) have "strict_prefix mid old" by (auto simp: strict_prefix_def)
      with np show False by simp
    next
      assume "prefix o1 ''app.''"
      with m 2 h(2) show False using marked_last[of mid u o1] by blast
    qed
  qed
qed

lemma marked_not_sublist:
  assumes o: "marked old" and m: "marked mid" and np: "\<not> prefix old mid"
  shows "\<not> sublist old mid"
proof
  assume "sublist old mid"
  then obtain u v where uv: "mid = u @ old @ v" by (auto simp: sublist_def)
  from o obtain w where "old = ''app.'' @ w" by (auto simp: marked_def prefix_def)
  with uv have "mid = u @ ''app.'' @ (w @ v)" by simp
  with m have "u = []" by (rule marked_inner)
  with uv have "prefix old mid" by simp
  with np show False by simp
qed

lemma str_replace_around_other:
  assumes o: "marked old" and m: "marked mid" and np: "\<not> prefix old mid" "\<not> strict_prefix mid old"
  shows "str_replace old new (a @ mid @ b) = str_replace old new a @ mid @ str_replace old new b"
proof -
  have ne: "old \<noteq> []" using o by (rule marked_nonempty)
  have "str_replace old new (a @ (mid @ b)) = str_replace old new a @ str_replace old new (mid @ b)"
  proof (rule str_replace_append[OF ne])
    fix o1 o2
    assume h: "old = o1 @ o2" "o1 \<noteq> []" "o2 \<noteq> []" "suffix o1 a" "prefix o2 (mid @ b)"
    from no_straddle_left[OF o m h(1) h(2) h(3) h(5)] show False .
  qed
  moreover have "str_replace old new (mid @ b) = str_replace old new mid @ str_replace old new b"
  proof (rule str_replace_append[OF ne])
    fix o1 o2
    assume h: "old = o1 @ o2" "o1 \<noteq> []" "o2 \<noteq> []" "suffix o1 mid" "prefix o2 b"
    from h(4) have "suffix o1 ([] @ mid)" by simp
    from no_straddle_right[OF o m np(2) h(1) h(2) h(3) this] show False .
  qed
  moreover have "str_replace old new mid = mid"
    by (rule str_replace_id) (rule marked_not_sublist[OF o m np(1)])
  ultimately show ?thesis by simp
qed

lemma str_replace_around_self:
  assumes o: "marked old"
  shows "str_replace old new (a @ old @ b) = str_replace old new a @ new @ str_replace old new b"
proof -
  have ne: "old \<noteq> []" using o by (rule marked_nonempty)
  have "str_replace old new (a @ (old @ b)) = str_replace old new a @ str_replace old new (old @ b)"
  proof (rule str_replace_append[OF ne])
    fix o1 o2
    assume h: "old = o1 @ o2" "o1 \<noteq> []" "o2 \<noteq> []" "suffix o1 a" "prefix o2 (old @ b)"
    from no_straddle_left[OF o o h(1) h(2) h(3) h(5)] show False .
  qed
  moreover have "str_replace old new (old @ b) = str_replace old new old @ str_replace old new b"
  proof (rule str_replace_append[OF ne])
    fix o1 o2
    assume h: "old = o1 @ o2" "o1 \<noteq> []" "o2 \<noteq> []" "suffix o1 old" "prefix o2 b"
    have np: "\<not> strict_prefix old old" by simp
    from h(4) have "suffix o1 ([] @ old)" by simp
    from no_straddle_right[OF o o np h(1) h(2) h(3) this] show False .
  qed
  ultimately show ?thesis using ne by (simp add: str_replace_self)
qed

lemma foldl_replace_around_other:
  assumes "marked mid"
    and "\<forall>(old, new) \<in> set rs. marked old \<and> \<not> prefix old mid \<and> \<not> strict_prefix mid old"
  shows "foldl (\<lambda>c (old, new). str_replace old new c) (a @ mid @ b) rs
       = foldl (\<lambda>c (old, new). str_replace old new c) a rs @ mid @ foldl (\<lambda>c (old, new). str_replace old new c) b rs"
  using assms(2)
proof (induction rs arbitrary: a b)
  case Nil
  then show ?case by simp
next
  case (Cons r rs)
  obtain old new where r: "r = (old, new)" by (cases r)
  with Cons.prems have o: "marked old" "\<not> prefix old mid" "\<not> strict_prefix mid old" by auto
  have "str_replace old new (a @ mid @ b) = str_replace old new a @ mid @ str_replace old new b"
    by (rule str_replace_around_other[OF o(1) assms(1) o(2) o(3)])
  moreover have "\<forall>(old, new) \<in> set rs. marked old \<and> \<not> prefix old mid \<and> \<not> strict_prefix mid old"
    using Cons.prems by simp
  ultimately show ?case using Cons.IH r by simp
qed

lemma routes_ok_facts:
  assumes "routes_ok rs"
  shows "distinct (map fst rs)"
    and "\<And>x y. (x, y) \<in> set rs \<Longrightarrow> marked x \<and> marked y"
    and "\<And>x y x' y'. (x, y) \<in> set rs \<Longrightarrow> (x', y') \<in> set rs \<Longrightarrow>
           (x = x' \<or> \<not> prefix x x') \<and> \<not> prefix x y' \<and> \<not> prefix y' x"
proof -
  from assms show "distinct (map fst rs)" by (simp add: routes_ok_def)
  from assms have a: "\<forall>p \<in> set rs. marked (fst p) \<and> marked (snd p)"
    by (simp add: routes_ok_def list_all_iff case_prod_beta)
  show "marked x \<and> marked y" if "(x, y) \<in> set rs" for x y
    using a that by force
  from assms have b: "\<forall>p \<in> set rs. \<forall>p' \<in> set rs.
      (fst p = fst p' \<or> \<not> prefix (fst p) (fst p')) \<and> \<not> prefix (fst p) (snd p') \<and> \<not> prefix (snd p') (fst p)"
    by (simp add: routes_ok_def list_all_iff case_prod_beta)
  show "(x = x' \<or> \<not> prefix x x') \<and> \<not> prefix x y' \<and> \<not> prefix y' x"
    if "(x, y) \<in> set rs" "(x', y') \<in> set rs" for x y x' y'
    using b[rule_format, OF that] by simp
qed

lemma foldl_replace_around_route:
  assumes ok: "routes_ok rs" and mem: "(old, new) \<in> set rs"
  shows "foldl (\<lambda>c (old, new). str_replace old new c) (a @ old @ b) rs
       = foldl (\<lambda>c (old, new). str_replace old new c) a rs @ new @ foldl (\<lambda>c (old, new). str_replace old new c) b rs"
proof -
  let ?F = "\<lambda>c (old, new). str_replace old new c"
  note d = routes_ok_facts(1)[OF ok] and mk = routes_ok_facts(2)[OF ok] and inc = routes_ok_facts(3)[OF ok]
  from mem obtain rs1 rs2 where rs: "rs = rs1 @ (old, new) # rs2" by (auto dest: split_list)
  from mk[OF mem] have mo: "marked old" and mn: "marked new" by simp_all
  from d have nin: "old \<notin> fst ` set rs1" unfolding rs by simp
  have c1: "\<forall>(x, y) \<in> set rs1. marked x \<and> \<not> prefix x old \<and> \<not> strict_prefix old x"
  proof (clarify, intro conjI)
    fix x y
    assume h: "(x, y) \<in> set rs1"
    then have m: "(x, y) \<in> set rs" unfolding rs by simp
    from h nin have ne: "x \<noteq> old" by (metis fst_conv image_eqI)
    from mk[OF m] show "marked x" by simp
    from inc[OF m mem] ne show "\<not> prefix x old" by simp
    from inc[OF mem m] ne have "\<not> prefix old x" by auto
    then show "\<not> strict_prefix old x" by (simp add: strict_prefix_def)
  qed
  have c2: "\<forall>(x, y) \<in> set rs2. marked x \<and> \<not> prefix x new \<and> \<not> strict_prefix new x"
  proof (clarify, intro conjI)
    fix x y
    assume h: "(x, y) \<in> set rs2"
    then have m: "(x, y) \<in> set rs" unfolding rs by simp
    from mk[OF m] show "marked x" by simp
    from inc[OF m mem] show "\<not> prefix x new" by simp
    from inc[OF m mem] have "\<not> prefix new x" by simp
    then show "\<not> strict_prefix new x" by (simp add: strict_prefix_def)
  qed
  have 1: "foldl ?F (a @ old @ b) rs1 = foldl ?F a rs1 @ old @ foldl ?F b rs1"
    by (rule foldl_replace_around_other[OF mo c1])
  have 2: "str_replace old new (foldl ?F a rs1 @ old @ foldl ?F b rs1)
      = str_replace old new (foldl ?F a rs1) @ new @ str_replace old new (foldl ?F b rs1)"
    by (rule str_replace_around_self[OF mo])
  have 3: "foldl ?F (str_replace old new (foldl ?F a rs1) @ new @ str_replace old new (foldl ?F b rs1)) rs2
      = foldl ?F (str_replace old new (foldl ?F a rs1)) rs2 @ new @ foldl ?F (str_replace old new (foldl ?F b rs1)) rs2"
    by (rule foldl_replace_around_other[OF mn c2])
  have "foldl ?F (a @ old @ b) rs = foldl ?F (str_replace old new (foldl ?F (a @ old @ b) rs1)) rs2"
    unfolding rs by simp
  also have "\<dots> = foldl ?F (str_replace old new (foldl ?F a rs1)) rs2 @ new @ foldl ?F (str_replace old new (foldl ?F b rs1)) rs2"
    unfolding 1 2 3 ..
  also have "\<dots> = foldl ?F a rs @ new @ foldl ?F b rs"
    unfolding rs by simp
  finally show ?thesis .
qed


section \<open>Files read and written\<close>

text \<open>
  Claim C5. The three scripts read the same input path and each one writes one file, at a
  path of its own that is not the input path: a successful run changes the file system at
  its output path only, so the text at the input path stays, and what a script writes and
  prints is the same whether or not another script has run before it.
\<close>

theorem scripts_write_one_file_each:
  "distinct (input_path # map snd scripts)
   \<and> (\<forall>(run, out) \<in> set scripts. \<forall>fs fs' msgs.
        run fs = Some (Inr (fs', msgs)) \<longrightarrow>
          (\<exists>content. fs' = fs(out \<mapsto> content)) \<and> fs' input_path = fs input_path)
   \<and> (\<forall>(run1, out1) \<in> set scripts. \<forall>(run2, out2) \<in> set scripts. \<forall>fs fs' msgs.
        run1 fs = Some (Inr (fs', msgs)) \<longrightarrow> written run2 out2 fs' = written run2 out2 fs)"
proof (intro conjI)
  show "distinct (input_path # map snd scripts)"
    using paths_distinct by (simp add: scripts_def)
  have one: "(\<exists>content. fs' = fs(out \<mapsto> content)) \<and> fs' input_path = fs input_path"
    if "(run, out) \<in> set scripts" "run fs = Some (Inr (fs', msgs))" for run out fs fs' msgs
  proof (cases "fs input_path")
    case None
    with run_absent[of run out fs] that show ?thesis by simp
  next
    case (Some content)
    from run_present[of run out fs content] that Some out_not_input[of run out] show ?thesis by auto
  qed
  then show "\<forall>(run, out) \<in> set scripts. \<forall>fs fs' msgs.
        run fs = Some (Inr (fs', msgs)) \<longrightarrow>
          (\<exists>content. fs' = fs(out \<mapsto> content)) \<and> fs' input_path = fs input_path"
    by blast
  show "\<forall>(run1, out1) \<in> set scripts. \<forall>(run2, out2) \<in> set scripts. \<forall>fs fs' msgs.
        run1 fs = Some (Inr (fs', msgs)) \<longrightarrow> written run2 out2 fs' = written run2 out2 fs"
    using one written_input_only by blast
qed

theorem scripts_write_one_file_each_witness:
  "(run_update_locations_routes, ulr_output_path) \<in> set scripts
   \<and> (run_final_fix_locations, ffl_output_path) \<in> set scripts
   \<and> run_update_locations_routes [input_path \<mapsto> ''a''] =
       Some (Inr ([input_path \<mapsto> ''a'', ulr_output_path \<mapsto> ''a''],
         [''File updated successfully! Created: locations_updated.ts'',
          ''Please review the changes before replacing the original file.'']))
   \<and> [input_path \<mapsto> ''a'', ulr_output_path \<mapsto> ''a''] input_path = [input_path \<mapsto> ''a''] input_path
   \<and> written run_final_fix_locations ffl_output_path [input_path \<mapsto> ''a'', ulr_output_path \<mapsto> ''a'']
       = written run_final_fix_locations ffl_output_path [input_path \<mapsto> ''a'']"
proof -
  have u: "update_locations_routes ''a'' = Inr ''a''" by code_simp
  have r: "run_update_locations_routes [input_path \<mapsto> ''a''] =
       Some (Inr ([input_path \<mapsto> ''a'', ulr_output_path \<mapsto> ''a''],
         [''File updated successfully! Created: locations_updated.ts'',
          ''Please review the changes before replacing the original file.'']))"
    by (simp add: run_update_locations_routes_def read_file_def write_file_def u)
  have m1: "(run_update_locations_routes, ulr_output_path) \<in> set scripts"
    and m2: "(run_final_fix_locations, ffl_output_path) \<in> set scripts"
    by (simp_all add: scripts_def)
  from scripts_write_one_file_each m1 m2 r show ?thesis by fast
qed

section \<open>Determinism\<close>



section \<open>The only failure is a missing input file\<close>

text \<open>
  Claim C8. Once the input has been read no script raises: the two regex passes and the
  line-by-line pass return a text for every input (no \<^verbatim>\<open>lines[i]\<close> is out of range, no
  template is refused, no group is missing). A run fails exactly when the input file is
  missing, with \<^verbatim>\<open>FileNotFoundError\<close>.
\<close>

theorem only_missing_input_fails:
  "(\<exists>c. final_fix_locations content = Inr c)
   \<and> (\<exists>out. fix_lines lines = Some (Inr out))
   \<and> (\<exists>c. fix_locations_manually content = Some (Inr c))
   \<and> (\<exists>c. update_locations_routes content = Inr c)
   \<and> (\<forall>(run, out) \<in> set scripts.
        case fs input_path of
          None \<Rightarrow> run fs = Some (Inl FileNotFoundError)
        | Some t \<Rightarrow> (\<exists>fs' msgs. run fs = Some (Inr (fs', msgs))))"
proof -
  have "case fs input_path of
          None \<Rightarrow> run fs = Some (Inl FileNotFoundError)
        | Some t \<Rightarrow> (\<exists>fs' msgs. run fs = Some (Inr (fs', msgs)))"
    if "(run, out) \<in> set scripts" for run out
  proof (cases "fs input_path")
    case None
    with run_absent[of run out fs] that show ?thesis by simp
  next
    case (Some t)
    with run_present[of run out fs t] that show ?thesis by auto
  qed
  then show ?thesis
    using final_fix_locations_ok fix_lines_returns fix_locations_manually_ok update_locations_routes_ok
    by blast
qed

theorem only_missing_input_fails_witness:
  "(run_fix_locations_manually, flm_output_path) \<in> set scripts
   \<and> (Map.empty :: filesystem) input_path = None
   \<and> run_fix_locations_manually Map.empty = Some (Inl FileNotFoundError)"
proof -
  have m: "(run_fix_locations_manually, flm_output_path) \<in> set scripts" by (simp add: scripts_def)
  from only_missing_input_fails[of "[]" "[]" Map.empty] m show ?thesis by fastforce
qed

section \<open>The first 593 lines\<close>

text \<open>
  Claim C6. The line-by-line pass of \<^verbatim>\<open>fix_locations_manually.py\<close> copies the lines of index
  0 to 592 unchanged: its output is the first 593 lines of the input followed by what it
  makes of the later lines, and the text written starts with the text of those lines.
\<close>

theorem first_593_lines_copied:
  "(\<exists>rest. fix_lines lines = Some (Inr (take 593 lines @ rest)))
   \<and> (\<exists>rest. fix_locations_manually content = Some (Inr (concat (take 593 (readlines content)) @ rest)))"
proof -
  obtain rest where r: "fix_lines (readlines content) = Some (Inr (take 593 (readlines content) @ rest))"
    using fix_lines_prefix by blast
  then have "fix_locations_manually content = Some (Inr (concat (take 593 (readlines content)) @ concat rest))"
    by (simp add: fix_locations_manually_def writelines_def)
  then show ?thesis using fix_lines_prefix by blast
qed

section \<open>Termination\<close>

text \<open>
  Claim C7. The transformation of each script terminates. In \<^verbatim>\<open>fix_locations_manually.py\<close>
  each of the three loops returns for every list of lines, and an iteration of each loop
  moves the index \<open>i\<close> forward: the innermost loop goes from \<open>i\<close> to \<open>i + 1\<close>, and the index
  after an iteration of the route loop or of the main loop is greater than before.
\<close>

theorem line_pass_terminates:
  "(\<exists>r. catch_loop lines i cb = Some r)
   \<and> (\<exists>r. route_loop lines st = Some r)
   \<and> (\<exists>r. main_loop lines st' = Some r)
   \<and> (\<exists>r. fix_lines lines = Some r)
   \<and> (i < length lines \<and> cb > 0 \<longrightarrow>
        catch_loop lines i cb = catch_loop lines (i + 1) (cb + brace_delta (lines ! i)))
   \<and> (\<forall>st2 brk. route_body lines st = Some (Inr (st2, brk)) \<longrightarrow> fst st < fst st2)
   \<and> (\<forall>st2. main_body lines st' = Some (Inr st2) \<longrightarrow> fst st' < fst st2)
   \<and> (\<forall>(run, out) \<in> set scripts. \<exists>r. run fs = Some r)"
proof (intro conjI)
  show "\<exists>r. catch_loop lines i cb = Some r" using catch_loop_returns[of lines i cb] by blast
  show "\<exists>r. route_loop lines st = Some r"
    using route_loop_returns[of lines "fst st" "fst (snd st)" "fst (snd (snd st))" "snd (snd (snd st))"]
    by auto
  show "\<exists>r. main_loop lines st' = Some r"
    using main_loop_returns[of lines "fst st'" "snd st'"] by auto
  show "\<exists>r. fix_lines lines = Some r" using fix_lines_returns[of lines] by blast
  show "i < length lines \<and> cb > 0 \<longrightarrow>
        catch_loop lines i cb = catch_loop lines (i + 1) (cb + brace_delta (lines ! i))"
    by (subst catch_loop.simps) (simp add: line_at_def)
  show "\<forall>st2 brk. route_body lines st = Some (Inr (st2, brk)) \<longrightarrow> fst st < fst st2"
  proof (intro allI impI)
    fix st2 brk
    assume a: "route_body lines st = Some (Inr (st2, brk))"
    obtain i0 out bc ft where st: "st = (i0, out, bc, ft)" by (cases st)
    have "i0 < length lines"
    proof (rule ccontr)
      assume "\<not> i0 < length lines"
      then have "route_body lines st = Some (Inl IndexError)"
        by (simp add: st route_body_def line_at_def)
      with a show False by simp
    qed
    from route_body_returns[OF this, of out bc ft] a st show "fst st < fst st2" by auto
  qed
  show "\<forall>st2. main_body lines st' = Some (Inr st2) \<longrightarrow> fst st' < fst st2"
  proof (intro allI impI)
    fix st2
    assume a: "main_body lines st' = Some (Inr st2)"
    obtain i0 out where st: "st' = (i0, out)" by (cases st')
    have "i0 < length lines"
    proof (rule ccontr)
      assume "\<not> i0 < length lines"
      then have "main_body lines st' = Some (Inl IndexError)"
        by (simp add: st main_body_def line_at_def)
      with a show False by simp
    qed
    from main_body_returns[OF this, of out] a st show "fst st' < fst st2" by auto
  qed
  show "\<forall>(run, out) \<in> set scripts. \<exists>r. run fs = Some r"
  proof (cases "fs input_path")
    case None
    then show ?thesis using run_absent[of _ _ fs] by blast
  next
    case (Some t)
    then show ?thesis using run_present[of _ _ fs t] by blast
  qed
qed

theorem line_pass_terminates_witness:
  "(0::nat) < length [''a''] \<and> (1::int) > 0
   \<and> catch_loop [''a''] 0 1 = catch_loop [''a''] (0 + 1) (1 + brace_delta ([''a''] ! 0))
   \<and> route_body [''a''] (0, [], 0, False) = Some (Inr ((1, [''a''], 0, False), False))
   \<and> fst ((0, [], 0, False) :: route_state) < fst ((1, [''a''], 0, False) :: route_state)
   \<and> main_body [''a''] (0, []) = Some (Inr (1, [''a'']))
   \<and> fst ((0, []) :: nat \<times> string list) < fst ((1, [''a'']) :: nat \<times> string list)
   \<and> (run_final_fix_locations, ffl_output_path) \<in> set scripts
   \<and> (\<exists>r. run_final_fix_locations Map.empty = Some r)"
proof -
  have b1: "route_body [''a''] (0, [], 0, False) = Some (Inr ((1, [''a''], 0, False), False))"
    by code_simp
  have b2: "main_body [''a''] (0, []) = Some (Inr (1, [''a'']))"
    by (simp add: main_body_def line_at_def)
  have m: "(run_final_fix_locations, ffl_output_path) \<in> set scripts" by (simp add: scripts_def)
  from line_pass_terminates[of "[''a'']" 0 1 "(0, [], 0, False)" "(0, [])" Map.empty] b1 b2 m
  show ?thesis by fastforce
qed


section \<open>Wrapping a route line\<close>





section \<open>A failed match leaves the text unchanged\<close>

text \<open>
  Claim C3. If the input has no occurrence of a literal that \<^verbatim>\<open>final_fix_locations.py\<close>
  searches and no match of one of its regular expressions, the script writes the input
  unchanged; the same holds for \<^verbatim>\<open>update_locations_routes.py\<close>; and
  \<^verbatim>\<open>fix_locations_manually.py\<close> writes the input unchanged if no line of index 593 or more
  contains one of the route substrings.
\<close>

theorem no_match_no_change:
  "((\<forall>(n, rp) \<in> set ffl_routes_to_update. \<not> sublist (ffl_searched rp) content)
      \<and> (\<forall>(p, r) \<in> set ffl_patterns. re_search p content = None)
      \<and> re_search ffl_closing_section content = None
      \<and> re_search ffl_closing_brace content = None
     \<longrightarrow> final_fix_locations content = Inr content)
   \<and> ((\<forall>i. 593 \<le> i \<and> i < length (readlines content) \<longrightarrow> \<not> is_route_line (readlines content ! i))
     \<longrightarrow> fix_locations_manually content = Some (Inr content))
   \<and> ((\<forall>(old, new) \<in> set ulr_routes_to_update. \<not> sublist old content)
      \<and> (\<forall>(p, r) \<in> set ulr_patterns. re_search p content = None)
      \<and> re_search ulr_closing_pattern content = None
     \<longrightarrow> update_locations_routes content = Inr content)"
proof (intro conjI impI)
  assume a: "(\<forall>(n, rp) \<in> set ffl_routes_to_update. \<not> sublist (ffl_searched rp) content)
      \<and> (\<forall>(p, r) \<in> set ffl_patterns. re_search p content = None)
      \<and> re_search ffl_closing_section content = None
      \<and> re_search ffl_closing_brace content = None"
  then have 1: "ffl_wrap_routes content = content" by (intro ffl_wrap_routes_id) blast
  from a have 2: "sub_all ffl_patterns content = Inr content"
    by (intro sub_all_no_match ffl_templates_ok) blast
  from a have 3: "re_sub ffl_closing_section ffl_closing_replacement content = Inr content"
    by (intro re_sub_no_match closing_templates_ok) blast
  from a have 4: "re_sub ffl_closing_brace ffl_closing_replacement content = Inr content"
    by (intro re_sub_no_match closing_templates_ok) blast
  show "final_fix_locations content = Inr content"
    by (simp add: final_fix_locations_def 1 2 3 4)
next
  assume "\<forall>i. 593 \<le> i \<and> i < length (readlines content) \<longrightarrow> \<not> is_route_line (readlines content ! i)"
  then have "fix_lines (readlines content) = Some (Inr (readlines content))" by (rule fix_lines_plain)
  then show "fix_locations_manually content = Some (Inr content)"
    by (simp add: fix_locations_manually_def writelines_readlines)
next
  assume a: "(\<forall>(old, new) \<in> set ulr_routes_to_update. \<not> sublist old content)
      \<and> (\<forall>(p, r) \<in> set ulr_patterns. re_search p content = None)
      \<and> re_search ulr_closing_pattern content = None"
  then have 1: "ulr_wrap_routes content = content"
    unfolding ulr_wrap_routes_def by (intro foldl_replace_id) blast
  from a have 2: "sub_all ulr_patterns content = Inr content"
    by (intro sub_all_no_match ulr_templates_ok) blast
  from a have 3: "ulr_fix_closing content = Inr content"
    unfolding ulr_fix_closing_def by (intro re_sub_no_match closing_templates_ok) blast
  show "update_locations_routes content = Inr content"
    by (simp add: update_locations_routes_def 1 2 3)
qed

lemma no_match_sample:
  "list_all (\<lambda>(n, rp). \<not> sublist (ffl_searched rp) ''const x = 1;'') ffl_routes_to_update"
  "list_all (\<lambda>(p, r). re_search p ''const x = 1;'' = None) ffl_patterns"
  "re_search ffl_closing_section ''const x = 1;'' = None"
  "re_search ffl_closing_brace ''const x = 1;'' = None"
  "list_all (\<lambda>(old, new). \<not> sublist old ''const x = 1;'') ulr_routes_to_update"
  "list_all (\<lambda>(p, r). re_search p ''const x = 1;'' = None) ulr_patterns"
  "re_search ulr_closing_pattern ''const x = 1;'' = None"
  by code_simp+

lemma blank_lines_sample:
  "readlines (replicate 594 nl) = replicate 594 [nl]"
  "\<not> is_route_line [nl]"
  by code_simp+

theorem no_match_no_change_witness:
  "list_all (\<lambda>(n, rp). \<not> sublist (ffl_searched rp) ''const x = 1;'') ffl_routes_to_update
   \<and> list_all (\<lambda>(p, r). re_search p ''const x = 1;'' = None) ffl_patterns
   \<and> re_search ffl_closing_section ''const x = 1;'' = None
   \<and> re_search ffl_closing_brace ''const x = 1;'' = None
   \<and> final_fix_locations ''const x = 1;'' = Inr ''const x = 1;''
   \<and> length (readlines (replicate 594 nl)) = 594
   \<and> \<not> is_route_line (readlines (replicate 594 nl) ! 593)
   \<and> fix_locations_manually (replicate 594 nl) = Some (Inr (replicate 594 nl))
   \<and> list_all (\<lambda>(old, new). \<not> sublist old ''const x = 1;'') ulr_routes_to_update
   \<and> list_all (\<lambda>(p, r). re_search p ''const x = 1;'' = None) ulr_patterns
   \<and> re_search ulr_closing_pattern ''const x = 1;'' = None
   \<and> update_locations_routes ''const x = 1;'' = Inr ''const x = 1;''"
proof -
  have "\<forall>i. 593 \<le> i \<and> i < length (readlines (replicate 594 nl)) \<longrightarrow>
          \<not> is_route_line (readlines (replicate 594 nl) ! i)"
    by (simp add: blank_lines_sample)
  with no_match_no_change[of "''const x = 1;''"] no_match_no_change[of "replicate 594 nl"]
    no_match_sample blank_lines_sample
  show ?thesis by (simp add: list_all_iff)
qed


section \<open>Error returns become throws\<close>




section \<open>The closing parentheses in \<^verbatim>\<open>update_locations_routes.py\<close>\<close>

text \<open>
  Claim C4, as amended. The replacement \<^verbatim>\<open>r'}));\\1'\<close> of the last substitution is parsed
  as six literal characters, \<^verbatim>\<open>}));\<close>, a backslash and the digit 1, with no reference to
  the group. The substitution replaces every occurrence of \<^verbatim>\<open>});\<close>, white space (possibly
  none) and \<^verbatim>\<open>//\<close> by these six characters, so the white space and the \<^verbatim>\<open>//\<close> are deleted;
  the text before and the text after an occurrence are transformed on their own, and a
  text without an occurrence is unchanged.
\<close>

theorem closing_fix_writes_backslash_one:
  "parse_template (groups_of ulr_closing_pattern) ulr_closing_replacement
     = Inr (map TLit (''}));'' @ [bs] @ ''1''))
   \<and> length (''}));'' @ [bs] @ ''1'') = 6
   \<and> (\<exists>f. (\<forall>s. ulr_fix_closing s = Inr (f s))
        \<and> (\<forall>a w b. list_all is_space w \<longrightarrow>
              f (a @ ''});'' @ w @ ''//'' @ b) = f a @ ''}));'' @ [bs] @ ''1'' @ f b)
        \<and> (\<forall>s. \<not> (\<exists>a w b. list_all is_space w \<and> s = a @ ''});'' @ w @ ''//'' @ b) \<longrightarrow> f s = s))"
proof (intro conjI)
  show "parse_template (groups_of ulr_closing_pattern) ulr_closing_replacement
     = Inr (map TLit (''}));'' @ [bs] @ ''1''))"
    by (rule ulr_closing_template)
  show "length (''}));'' @ [bs] @ ''1'') = 6" by simp
  let ?f = "sub_scan (match_expand ulr_closing_pattern (map TLit (''}));'' @ [bs] @ ''1'')))"
  have "\<forall>s. ulr_fix_closing s = Inr (?f s)"
    by (simp add: ulr_fix_closing_def re_sub_def ulr_closing_template)
  moreover have "\<forall>a w b. list_all is_space w \<longrightarrow>
              ?f (a @ ''});'' @ w @ ''//'' @ b) = ?f a @ ''}));'' @ [bs] @ ''1'' @ ?f b"
    using ulr_closing_compose by blast
  moreover have "\<forall>s. \<not> (\<exists>a w b. list_all is_space w \<and> s = a @ ''});'' @ w @ ''//'' @ b) \<longrightarrow> ?f s = s"
    using ulr_closing_id by blast
  ultimately show "\<exists>f. (\<forall>s. ulr_fix_closing s = Inr (f s))
        \<and> (\<forall>a w b. list_all is_space w \<longrightarrow>
              f (a @ ''});'' @ w @ ''//'' @ b) = f a @ ''}));'' @ [bs] @ ''1'' @ f b)
        \<and> (\<forall>s. \<not> (\<exists>a w b. list_all is_space w \<and> s = a @ ''});'' @ w @ ''//'' @ b) \<longrightarrow> f s = s)"
    by blast
qed

theorem closing_fix_writes_backslash_one_witness:
  "list_all is_space ''  ''
   \<and> ulr_fix_closing (''x'' @ ''});'' @ ''  '' @ ''//'' @ '' c'') = Inr (''x'' @ ''}));'' @ [bs] @ ''1'' @ '' c'')"
proof -
  have w: "list_all is_space ''  ''" by (simp add: is_space_def)
  have x: "ulr_fix_closing ''x'' = Inr ''x''" and c: "ulr_fix_closing '' c'' = Inr '' c''"
    by code_simp+
  from closing_fix_writes_backslash_one obtain f where
    f: "\<forall>s. ulr_fix_closing s = Inr (f s)"
    and g: "\<forall>a w b. list_all is_space w \<longrightarrow>
              f (a @ ''});'' @ w @ ''//'' @ b) = f a @ ''}));'' @ [bs] @ ''1'' @ f b"
    by blast
  from f x c have "f ''x'' = ''x''" "f '' c'' = '' c''" by simp_all
  moreover from g w have "f (''x'' @ ''});'' @ ''  '' @ ''//'' @ '' c'') = f ''x'' @ ''}));'' @ [bs] @ ''1'' @ f '' c''"
    by blast
  ultimately have "f (''x'' @ ''});'' @ ''  '' @ ''//'' @ '' c'') = ''x'' @ ''}));'' @ [bs] @ ''1'' @ '' c''"
    by simp
  with f w show ?thesis by metis
qed

text \<open>
  The claim as stated counts seven characters in what replaces an occurrence. The raw
  replacement string has seven; what is written has six.
\<close>

theorem seven_characters_counterexample:
  "ulr_fix_closing (''});'' @ '' '' @ ''//'') = Inr (''}));'' @ [bs] @ ''1'')
   \<and> length ulr_closing_replacement = 7
   \<and> length (''}));'' @ [bs] @ ''1'') \<noteq> 7"
  by code_simp


section \<open>Wrapping the route handlers in \<^verbatim>\<open>update_locations_routes.py\<close>\<close>

text \<open>
  Claim C2. The list has 27 pairs; in each the new text is the old one with
  \<^verbatim>\<open>asyncHandler(async \<close> in place of the final \<^verbatim>\<open>async \<close>. The wrapping step replaces every
  occurrence of each old text by its new text, wherever it stands: the text before and
  the text after an occurrence are transformed on their own. A text without an occurrence
  of an old text is unchanged, so the step changes nothing else.
\<close>

theorem routes_wrapped_everywhere:
  "length ulr_routes_to_update = 27
   \<and> (\<forall>(old, new) \<in> set ulr_routes_to_update.
        \<exists>p. old = p @ '', async '' \<and> new = p @ '', asyncHandler(async '')
   \<and> (\<forall>(old, new) \<in> set ulr_routes_to_update. \<forall>a b.
        ulr_wrap_routes (a @ old @ b) = ulr_wrap_routes a @ new @ ulr_wrap_routes b)
   \<and> (\<forall>s. (\<forall>(old, new) \<in> set ulr_routes_to_update. \<not> sublist old s) \<longrightarrow> ulr_wrap_routes s = s)"
proof (intro conjI)
  show "length ulr_routes_to_update = 27" by (simp add: ulr_routes_to_update_def)
  show "\<forall>(old, new) \<in> set ulr_routes_to_update.
        \<exists>p. old = p @ '', async '' \<and> new = p @ '', asyncHandler(async ''"
  proof (clarify)
    fix old new
    assume "(old, new) \<in> set ulr_routes_to_update"
    with ulr_routes_shape have s: "suffix '', async '' old"
      and n: "new = take (length old - 6) old @ ''asyncHandler(async ''"
      by (auto simp: list_all_iff)
    from s obtain p where p: "old = p @ '', async ''" by (auto simp: suffix_def)
    then have "take (length old - 6) old = p @ '', ''" by simp
    with n p show "\<exists>p. old = p @ '', async '' \<and> new = p @ '', asyncHandler(async ''" by simp
  qed
  show "\<forall>(old, new) \<in> set ulr_routes_to_update. \<forall>a b.
        ulr_wrap_routes (a @ old @ b) = ulr_wrap_routes a @ new @ ulr_wrap_routes b"
    unfolding ulr_wrap_routes_def using foldl_replace_around_route[OF ulr_routes_ok] by blast
  show "\<forall>s. (\<forall>(old, new) \<in> set ulr_routes_to_update. \<not> sublist old s) \<longrightarrow> ulr_wrap_routes s = s"
    unfolding ulr_wrap_routes_def using foldl_replace_id by blast
qed

theorem routes_wrapped_everywhere_witness:
  "(''app.get('' @ [dq] @ ''/api/venues'' @ [dq] @ '', async '',
    ''app.get('' @ [dq] @ ''/api/venues'' @ [dq] @ '', asyncHandler(async '') \<in> set ulr_routes_to_update
   \<and> ulr_wrap_routes (''  '' @ (''app.get('' @ [dq] @ ''/api/venues'' @ [dq] @ '', async '') @ ''(req, res) => {'')
       = ''  '' @ (''app.get('' @ [dq] @ ''/api/venues'' @ [dq] @ '', asyncHandler(async '') @ ''(req, res) => {''
   \<and> list_all (\<lambda>(old, new). \<not> sublist old ''(req, res) => {'') ulr_routes_to_update
   \<and> ulr_wrap_routes ''(req, res) => {'' = ''(req, res) => {''"
proof -
  have m: "(''app.get('' @ [dq] @ ''/api/venues'' @ [dq] @ '', async '',
    ''app.get('' @ [dq] @ ''/api/venues'' @ [dq] @ '', asyncHandler(async '') \<in> set ulr_routes_to_update"
    by code_simp
  have n: "list_all (\<lambda>(old, new). \<not> sublist old ''(req, res) => {'') ulr_routes_to_update"
    and n2: "list_all (\<lambda>(old, new). \<not> sublist old ''  '') ulr_routes_to_update"
    by code_simp+
  from routes_wrapped_everywhere have
    c: "\<forall>(old, new) \<in> set ulr_routes_to_update. \<forall>a b.
        ulr_wrap_routes (a @ old @ b) = ulr_wrap_routes a @ new @ ulr_wrap_routes b"
    and i: "\<forall>s. (\<forall>(old, new) \<in> set ulr_routes_to_update. \<not> sublist old s) \<longrightarrow> ulr_wrap_routes s = s"
    by blast+
  from i n have 1: "ulr_wrap_routes ''(req, res) => {'' = ''(req, res) => {''" by (simp add: list_all_iff)
  from i n2 have 2: "ulr_wrap_routes ''  '' = ''  ''" by (simp add: list_all_iff)
  from c m have "ulr_wrap_routes (''  '' @ (''app.get('' @ [dq] @ ''/api/venues'' @ [dq] @ '', async '') @ ''(req, res) => {'')
       = ulr_wrap_routes ''  '' @ (''app.get('' @ [dq] @ ''/api/venues'' @ [dq] @ '', asyncHandler(async '') @ ulr_wrap_routes ''(req, res) => {''"
    by blast
  with 1 2 m n show ?thesis by simp
qed


end
